theory Spec2Isabelle
  imports Complex_Main "HOL-Library.AList"
begin

section \<open>Data model\<close>

text \<open>
  The repository holds five variants of one dispatcher: \<^verbatim>\<open>main.py\<close> (ambulances only),
  \<^verbatim>\<open>fast_simulation.py\<close> and \<^verbatim>\<open>vector_simulation.py\<close> (three services, availability
  fetched per call), \<^verbatim>\<open>aioHttp.py\<close> and \<^verbatim>\<open>aioHttp3.py\<close> (asyncio, a shared availability
  cache refreshed in the background).

  A Python dict keeps insertion order, and the candidate list is built by iterating
  \<^verbatim>\<open>available.items()\<close>, so an availability mapping is an association list:
  \<^const>\<open>map_of\<close> is \<^verbatim>\<open>d.get(k)\<close>, and \<^const>\<open>AList.update\<close> is \<^verbatim>\<open>d[k] = v\<close>
  (an existing key keeps its position, a new key goes to the end).
  Counts are Python integers (\<^typ>\<open>int\<close>); coordinates are Python numbers of a type
  left open.
\<close>

record 'f location =
  county :: string
  city :: string
  latitude :: 'f
  longitude :: 'f

type_synonym 'f location_details = "string \<rightharpoonup> 'f location"

text \<open>
  The two library operations \<^verbatim>\<open>euclidean_distance\<close> is built from are not code of the
  repository, so they are parameters: the subtraction of two coordinates and
  \<^verbatim>\<open>math.hypot\<close>, as the interpreter computes them (in double precision, with its
  rounding). \<open>'f\<close> is the type of the coordinates and \<open>'d\<close> the type of the distances; the
  ranking only needs the distances to be linearly ordered, as floats other than NaN are.
\<close>

record ('f, 'd) arith =
  fsub :: "'f \<Rightarrow> 'f \<Rightarrow> 'f"
  hypot :: "'f \<Rightarrow> 'f \<Rightarrow> 'd"

type_synonym availability = "(string \<times> int) list"

text \<open>\<^verbatim>\<open>availability_cache\<close>: service type to availability mapping.\<close>

type_synonym cache = "string \<rightharpoonup> availability"

text \<open>One entry of a call's \<^verbatim>\<open>requests\<close> list; \<^verbatim>\<open>req.get("Quantity", 0)\<close> reads an
  absent quantity as 0.\<close>

record request =
  req_Type :: string
  req_Quantity :: int

text \<open>A call as the multi-service processors read it: \<^verbatim>\<open>call.get("city")\<close> (maybe
  absent) and \<^verbatim>\<open>call.get("requests", [])\<close>.\<close>

record emergency_call =
  call_city :: "string option"
  requests :: "request list"

text \<open>One record of an availability response.\<close>

record item =
  item_city :: "string option"
  item_name :: "string option"
  item_available :: "int option"
  item_quantity :: "int option"

text \<open>What \<^verbatim>\<open>call_api\<close> hands back: \<^verbatim>\<open>None\<close> on a failed request, a string (maybe
  empty) when the body is not JSON, or the decoded list of records.\<close>

datatype api_data = ApiNone | ApiText string | ApiList "item list"

datatype error = RuntimeError | AttributeError | KeyError

record payload =
  sourceCounty :: string
  sourceCity :: string
  targetCounty :: string
  targetCity :: string
  quantity :: int

text \<open>
  The observable effects of a run, in program order: a write of a new count into the
  shared cache, and a POST to a dispatch endpoint together with whether \<^verbatim>\<open>call_api\<close>
  returned a result (\<^const>\<open>True\<close>) or \<^verbatim>\<open>None\<close> (\<^const>\<open>False\<close>).
\<close>

datatype event =
  CacheWrite string string int
| Post string payload bool

text \<open>The dispatch gateway: an external collaborator, a parameter of the model.\<close>

type_synonym gateway = "string \<Rightarrow> payload \<Rightarrow> bool"

section \<open>Shared helpers (identical in all five files)\<close>

text \<open>\<^verbatim>\<open>math.hypot(coord1[0] - coord2[0], coord1[1] - coord2[1])\<close>: the Euclidean
  distance as the interpreter computes it. Two points whose exact distances differ by
  less than the rounding get the same value.\<close>

definition euclidean_distance :: "('f, 'd) arith \<Rightarrow> 'f \<times> 'f \<Rightarrow> 'f \<times> 'f \<Rightarrow> 'd" where
  "euclidean_distance ar coord1 coord2 =
     hypot ar (fsub ar (fst coord1) (fst coord2)) (fsub ar (snd coord1) (snd coord2))"

text \<open>Python's \<^verbatim>\<open>a or b\<close> on optional strings: the empty string is falsy.\<close>

definition str_or :: "string option \<Rightarrow> string option \<Rightarrow> string option" where
  "str_or a b = (case a of Some s \<Rightarrow> (if s = [] then b else Some s) | None \<Rightarrow> b)"

definition item_key :: "item \<Rightarrow> string" where
  "item_key it =
     (case str_or (str_or (item_city it) (item_name it)) (Some ''unknown'') of
        Some s \<Rightarrow> s | None \<Rightarrow> ''unknown'')"

text \<open>\<^verbatim>\<open>item.get("available", item.get("quantity", 0))\<close>\<close>

definition item_count :: "item \<Rightarrow> int" where
  "item_count it =
     (case item_available it of Some a \<Rightarrow> a
      | None \<Rightarrow> (case item_quantity it of Some q \<Rightarrow> q | None \<Rightarrow> 0))"

text \<open>
  \<^verbatim>\<open>get_available\<close> of \<^verbatim>\<open>aioHttp.py\<close> and \<^verbatim>\<open>aioHttp3.py\<close> (and, word for word, the
  \<^verbatim>\<open>get_available_*\<close> functions of \<^verbatim>\<open>main.py\<close> and \<^verbatim>\<open>fast_simulation.py\<close>):
  \<^verbatim>\<open>if not data: raise RuntimeError(...)\<close>, then one dict entry per record. A non-empty
  text body is iterated character by character and \<^verbatim>\<open>item.get\<close> fails on the first.
\<close>

definition get_available :: "api_data \<Rightarrow> error + availability" where
  "get_available data =
     (case data of
        ApiNone \<Rightarrow> Inl RuntimeError
      | ApiText s \<Rightarrow> (if s = [] then Inl RuntimeError else Inl AttributeError)
      | ApiList items \<Rightarrow>
          (if items = [] then Inl RuntimeError
           else Inr (foldl (\<lambda>available it. AList.update (item_key it) (item_count it) available)
                      [] items)))"

subsection \<open>Candidate ranker\<close>

text \<open>
  The candidate list of \<^verbatim>\<open>fast_simulation.py\<close> (lines 209-216), \<^verbatim>\<open>vector_simulation.py\<close>
  (lines 102-107), \<^verbatim>\<open>main.py\<close> and \<^verbatim>\<open>aioHttp.py\<close>: one triple
  \<^verbatim>\<open>(city, distance, count)\<close> for every entry with \<^verbatim>\<open>count > 0 and city in location_details\<close>,
  in the order of \<^verbatim>\<open>available.items()\<close>.
\<close>

fun build_candidates ::
  "('f, 'd) arith \<Rightarrow> 'f location_details \<Rightarrow> 'f \<times> 'f \<Rightarrow> availability \<Rightarrow> (string \<times> 'd \<times> int) list" where
  "build_candidates ar ld target_coord [] = []"
| "build_candidates ar ld target_coord ((c, count) # rest) =
     (if count > 0 then
        (case ld c of
           Some source_detail \<Rightarrow>
             (c, euclidean_distance ar (latitude source_detail, longitude source_detail) target_coord,
              count) # build_candidates ar ld target_coord rest
         | None \<Rightarrow> build_candidates ar ld target_coord rest)
      else build_candidates ar ld target_coord rest)"

text \<open>\<^verbatim>\<open>candidates.sort(key=lambda candidate: candidate[1])\<close>; Python's sort is stable,
  as is \<^const>\<open>sort_key\<close>.\<close>

definition rank_candidates ::
  "('f, 'd::linorder) arith \<Rightarrow> 'f location_details \<Rightarrow> 'f \<times> 'f \<Rightarrow> availability \<Rightarrow> (string \<times> 'd \<times> int) list" where
  "rank_candidates ar ld target_coord available =
     sort_key (\<lambda>candidate. fst (snd candidate)) (build_candidates ar ld target_coord available)"

section \<open>\<^verbatim>\<open>aioHttp3.py\<close>: the shared cache with an atomic take\<close>

text \<open>
  \<^verbatim>\<open>dispatch\<close>: no request is sent when either city is missing from the location
  details; otherwise one POST, whose result is returned to a caller that drops it.
\<close>

definition dispatch ::
  "gateway \<Rightarrow> string \<Rightarrow> string \<Rightarrow> string \<Rightarrow> int \<Rightarrow> 'f location_details \<Rightarrow> event list" where
  "dispatch gw endpoint source_city target_city count ld =
     (case ld source_city of
        None \<Rightarrow> []
      | Some src \<Rightarrow>
          (case ld target_city of
             None \<Rightarrow> []
           | Some tgt \<Rightarrow>
               (let p = \<lparr>sourceCounty = county src, sourceCity = city src,
                         targetCounty = county tgt, targetCity = city tgt,
                         quantity = count\<rparr>
                in [Post endpoint p (gw endpoint p)])))"

text \<open>The endpoint dictionary of lines 177-183.\<close>

definition endpoint_of :: "string \<Rightarrow> string option" where
  "endpoint_of service_type =
     (if service_type = ''Medical'' then Some ''/medical/dispatch''
      else if service_type = ''Fire'' then Some ''/fire/dispatch''
      else if service_type = ''Police'' then Some ''/police/dispatch''
      else if service_type = ''Rescue'' then Some ''/rescue/dispatch''
      else if service_type = ''Utility'' then Some ''/utility/dispatch''
      else None)"

text \<open>
  The critical section of lines 170-175, the only place where \<^verbatim>\<open>aioHttp3.py\<close> lowers a
  count:
  \<^verbatim>\<open>
  dispatch_count = 0
  async with cache_lock:
      current_avail = availability_cache.get(service_type, {}).get(city, 0)
      if current_avail > 0:
          dispatch_count = min(current_avail, remaining)
          availability_cache[service_type][city] = current_avail - dispatch_count
  \<close>
  There is no \<^verbatim>\<open>await\<close> inside the block, so it is one atomic step of the event loop.
  It returns the amount taken, the new cache and the write it made.
\<close>

definition try_take :: "cache \<Rightarrow> string \<Rightarrow> string \<Rightarrow> int \<Rightarrow> int \<times> cache \<times> event list" where
  "try_take ch service_type c remaining =
     (case ch service_type of
        None \<Rightarrow> (0, ch, [])
      | Some available \<Rightarrow>
          (case map_of available c of
             None \<Rightarrow> (0, ch, [])
           | Some current_avail \<Rightarrow>
               (if current_avail > 0 then
                  (let dispatch_count = min current_avail remaining in
                   (dispatch_count,
                    ch(service_type \<mapsto> AList.update c (current_avail - dispatch_count) available),
                    [CacheWrite service_type c (current_avail - dispatch_count)]))
                else (0, ch, []))))"

text \<open>Lines 157-163: the candidates of \<^verbatim>\<open>aioHttp3.py\<close> are pairs \<^verbatim>\<open>(city, distance)\<close>;
  the snapshot's count is only used to filter.\<close>

fun build_candidates_shared ::
  "('f, 'd) arith \<Rightarrow> 'f location_details \<Rightarrow> 'f \<times> 'f \<Rightarrow> availability \<Rightarrow> (string \<times> 'd) list" where
  "build_candidates_shared ar ld target_coord [] = []"
| "build_candidates_shared ar ld target_coord ((c, count) # rest) =
     (if count > 0 then
        (case ld c of
           Some source_detail \<Rightarrow>
             (c, euclidean_distance ar (latitude source_detail, longitude source_detail) target_coord)
               # build_candidates_shared ar ld target_coord rest
         | None \<Rightarrow> build_candidates_shared ar ld target_coord rest)
      else build_candidates_shared ar ld target_coord rest)"

text \<open>Lines 166-186: the walk over the candidates of one request, run with no other
  task scheduled in between. Result: the final \<^verbatim>\<open>remaining\<close>, the cache, the effects.\<close>

fun allocate_shared ::
  "gateway \<Rightarrow> 'f location_details \<Rightarrow> string \<Rightarrow> string \<Rightarrow> (string \<times> 'd) list \<Rightarrow> int \<Rightarrow> cache
     \<Rightarrow> int \<times> cache \<times> event list" where
  "allocate_shared gw ld service_type target_city [] remaining ch = (remaining, ch, [])"
| "allocate_shared gw ld service_type target_city ((c, d) # candidates) remaining ch =
     (if remaining \<le> 0 then (remaining, ch, [])
      else
        (case try_take ch service_type c remaining of
           (dispatch_count, ch1, writes) \<Rightarrow>
             (if dispatch_count > 0 then
                (case endpoint_of service_type of
                   Some endpoint \<Rightarrow>
                     (case allocate_shared gw ld service_type target_city candidates
                             (remaining - dispatch_count) ch1 of
                        (r, ch2, evs) \<Rightarrow>
                          (r, ch2,
                           writes @ dispatch gw endpoint c target_city dispatch_count ld @ evs))
                 | None \<Rightarrow>
                     (case allocate_shared gw ld service_type target_city candidates remaining ch1 of
                        (r, ch2, evs) \<Rightarrow> (r, ch2, writes @ evs)))
              else
                (case allocate_shared gw ld service_type target_city candidates remaining ch1 of
                   (r, ch2, evs) \<Rightarrow> (r, ch2, writes @ evs)))))"

text \<open>
  What became of one request: skipped by a \<^verbatim>\<open>continue\<close> (with the quantity it asked
  for, none of which was allocated), or run through the allocator (with the value of
  \<^verbatim>\<open>remaining\<close> tested at line 188).
\<close>

datatype outcome = Skipped int | Allocated int

text \<open>The units of a request that were not dispatched.\<close>

fun remaining_of :: "outcome \<Rightarrow> int" where
  "remaining_of (Skipped q) = q"
| "remaining_of (Allocated r) = r"

text \<open>Lines 146-189: the loop over the requests, threading \<^verbatim>\<open>all_success\<close> and the
  cache; the outcomes are listed in request order.\<close>

fun process_requests_shared ::
  "('f, 'd::linorder) arith \<Rightarrow> gateway \<Rightarrow> 'f location_details \<Rightarrow> string \<Rightarrow> 'f \<times> 'f \<Rightarrow> request list \<Rightarrow> bool \<Rightarrow> cache
     \<Rightarrow> bool \<times> cache \<times> event list \<times> outcome list" where
  "process_requests_shared ar gw ld target_city target_coord [] all_success ch =
     (all_success, ch, [], [])"
| "process_requests_shared ar gw ld target_city target_coord (req # reqs) all_success ch =
     (if req_Quantity req \<le> 0 then
        (case process_requests_shared ar gw ld target_city target_coord reqs all_success ch of
           (ok, ch', evs, outs) \<Rightarrow> (ok, ch', evs, Skipped (req_Quantity req) # outs))
      else
        (case ch (req_Type req) of
           None \<Rightarrow>
             (case process_requests_shared ar gw ld target_city target_coord reqs all_success ch of
                (ok, ch', evs, outs) \<Rightarrow> (ok, ch', evs, Skipped (req_Quantity req) # outs))
         | Some available \<Rightarrow>
             (case allocate_shared gw ld (req_Type req) target_city
                     (sort_key snd (build_candidates_shared ar ld target_coord available))
                     (req_Quantity req) ch of
                (remaining, ch1, evs1) \<Rightarrow>
                  (case process_requests_shared ar gw ld target_city target_coord reqs
                          (if remaining > 0 then False else all_success) ch1 of
                     (ok, ch', evs, outs) \<Rightarrow>
                       (ok, ch', evs1 @ evs, Allocated remaining # outs)))))"

text \<open>\<^verbatim>\<open>process_multi_service_emergency_shared\<close> of \<^verbatim>\<open>aioHttp3.py\<close>, lines 127-190.\<close>

definition process_multi_service_emergency_shared ::
  "('f, 'd::linorder) arith \<Rightarrow> gateway \<Rightarrow> emergency_call \<Rightarrow> 'f location_details \<Rightarrow> cache
     \<Rightarrow> bool \<times> cache \<times> event list \<times> outcome list" where
  "process_multi_service_emergency_shared ar gw call ld ch =
     (case call_city call of
        None \<Rightarrow> (False, ch, [], [])
      | Some target_city \<Rightarrow>
          (if target_city = [] then (False, ch, [], [])
           else
             (case ld target_city of
                None \<Rightarrow> (False, ch, [], [])
              | Some tgt \<Rightarrow>
                  (if requests call = [] then (False, ch, [], [])
                   else process_requests_shared ar gw ld target_city
                          (latitude tgt, longitude tgt) (requests call) True ch))))"

text \<open>
  One iteration of the refresh loop of \<^verbatim>\<open>update_availability_cache\<close> (lines 106-125):
  \<^verbatim>\<open>asyncio.gather\<close> raises as soon as one fetch raises, \<^verbatim>\<open>except Exception: pass\<close>
  swallows it, and the five assignments sit in one \<^verbatim>\<open>async with cache_lock\<close> block
  with no \<^verbatim>\<open>await\<close> inside. The cache argument is the cache when that block starts.
\<close>

definition update_availability_cache ::
  "cache \<Rightarrow> api_data \<Rightarrow> api_data \<Rightarrow> api_data \<Rightarrow> api_data \<Rightarrow> api_data \<Rightarrow> cache" where
  "update_availability_cache ch med_data fire_data police_data rescue_data utility_data =
     (case get_available med_data of Inl e \<Rightarrow> ch | Inr med \<Rightarrow>
     (case get_available fire_data of Inl e \<Rightarrow> ch | Inr fire \<Rightarrow>
     (case get_available police_data of Inl e \<Rightarrow> ch | Inr police \<Rightarrow>
     (case get_available rescue_data of Inl e \<Rightarrow> ch | Inr rescue \<Rightarrow>
     (case get_available utility_data of Inl e \<Rightarrow> ch | Inr utility \<Rightarrow>
        ch(''Medical'' \<mapsto> med, ''Fire'' \<mapsto> fire, ''Police'' \<mapsto> police,
           ''Rescue'' \<mapsto> rescue, ''Utility'' \<mapsto> utility))))))"

section \<open>\<^verbatim>\<open>aioHttp.py\<close>: the shared cache, decremented from the snapshot\<close>

text \<open>The \<^verbatim>\<open>if/elif\<close> chain of lines 166-174; any other type takes the \<^verbatim>\<open>continue\<close>.\<close>

definition endpoint_aioHttp :: "string \<Rightarrow> string option" where
  "endpoint_aioHttp service_type =
     (if service_type = ''Medical'' then Some ''/medical/dispatch''
      else if service_type = ''Fire'' then Some ''/fire/dispatch''
      else if service_type = ''Police'' then Some ''/police/dispatch''
      else None)"

text \<open>
  Lines 180-181, the second critical section of \<^verbatim>\<open>aioHttp.py\<close>:
  \<^verbatim>\<open>
  async with cache_lock:
      availability_cache[service_type][city] -= dispatch_count
  \<close>
  A subscript on a missing key raises \<^verbatim>\<open>KeyError\<close>.
\<close>

definition decrement_aioHttp ::
  "cache \<Rightarrow> string \<Rightarrow> string \<Rightarrow> int \<Rightarrow> error + cache \<times> event list" where
  "decrement_aioHttp ch service_type c dispatch_count =
     (case ch service_type of
        None \<Rightarrow> Inl KeyError
      | Some available \<Rightarrow>
          (case map_of available c of
             None \<Rightarrow> Inl KeyError
           | Some current \<Rightarrow>
               Inr (ch(service_type \<mapsto> AList.update c (current - dispatch_count) available),
                    [CacheWrite service_type c (current - dispatch_count)])))"

text \<open>
  Lines 161-182: the walk over the candidates \<^verbatim>\<open>(city, distance, count)\<close> that were
  computed under the lock at lines 145-159. The amount is \<^verbatim>\<open>min(avail_count, remaining)\<close>
  with \<^verbatim>\<open>avail_count\<close> the count in the candidate list; the order is sent
  (\<^verbatim>\<open>await dispatch(...)\<close>) and only then is the cache decremented.
\<close>

fun allocate_aioHttp ::
  "gateway \<Rightarrow> 'f location_details \<Rightarrow> string \<Rightarrow> string \<Rightarrow> (string \<times> 'd \<times> int) list \<Rightarrow> int \<Rightarrow> cache
     \<Rightarrow> error + int \<times> cache \<times> event list" where
  "allocate_aioHttp gw ld service_type target_city [] remaining ch = Inr (remaining, ch, [])"
| "allocate_aioHttp gw ld service_type target_city ((c, d, avail_count) # candidates) remaining ch =
     (if remaining \<le> 0 then Inr (remaining, ch, [])
      else
        (let dispatch_count = min avail_count remaining in
         (case endpoint_aioHttp service_type of
            None \<Rightarrow> allocate_aioHttp gw ld service_type target_city candidates remaining ch
          | Some endpoint \<Rightarrow>
              (case decrement_aioHttp ch service_type c dispatch_count of
                 Inl e \<Rightarrow> Inl e
               | Inr (ch1, writes) \<Rightarrow>
                   (case allocate_aioHttp gw ld service_type target_city candidates
                           (remaining - dispatch_count) ch1 of
                      Inl e \<Rightarrow> Inl e
                    | Inr (r, ch2, evs) \<Rightarrow>
                        Inr (r, ch2,
                             dispatch gw endpoint c target_city dispatch_count ld
                               @ writes @ evs))))))"

text \<open>One iteration of the refresh loop of \<^verbatim>\<open>aioHttp.py\<close> (lines 104-118): three
  services, otherwise as in \<^verbatim>\<open>aioHttp3.py\<close>.\<close>

definition update_availability_cache_aioHttp ::
  "cache \<Rightarrow> api_data \<Rightarrow> api_data \<Rightarrow> api_data \<Rightarrow> cache" where
  "update_availability_cache_aioHttp ch med_data fire_data police_data =
     (case get_available med_data of Inl e \<Rightarrow> ch | Inr med \<Rightarrow>
     (case get_available fire_data of Inl e \<Rightarrow> ch | Inr fire \<Rightarrow>
     (case get_available police_data of Inl e \<Rightarrow> ch | Inr police \<Rightarrow>
        ch(''Medical'' \<mapsto> med, ''Fire'' \<mapsto> fire, ''Police'' \<mapsto> police))))"

section \<open>\<^verbatim>\<open>fast_simulation.py\<close>: availability fetched per call\<close>

text \<open>The \<^verbatim>\<open>if/elif\<close> chain of lines 223-231 picks \<^verbatim>\<open>dispatch_ambulances\<close>,
  \<^verbatim>\<open>dispatch_firefighters\<close> or \<^verbatim>\<open>dispatch_police\<close>. The three are the function
  \<^const>\<open>dispatch\<close> with the endpoint fixed.\<close>

definition endpoint_fast :: "string \<Rightarrow> string option" where
  "endpoint_fast service_type =
     (if service_type = ''Medical'' then Some ''/medical/dispatch''
      else if service_type = ''Fire'' then Some ''/fire/dispatch''
      else if service_type = ''Police'' then Some ''/police/dispatch''
      else None)"

text \<open>
  Lines 218-233, the greedy walk. \<^verbatim>\<open>available\<close> is the call's own dict for the service
  type; \<^verbatim>\<open>available[city] -= dispatch_count\<close> reads the key it writes.
\<close>

fun allocate_fast ::
  "gateway \<Rightarrow> 'f location_details \<Rightarrow> string \<Rightarrow> string \<Rightarrow> (string \<times> 'd \<times> int) list \<Rightarrow> int
     \<Rightarrow> availability \<Rightarrow> error + int \<times> availability \<times> event list" where
  "allocate_fast gw ld service_type target_city [] remaining available =
     Inr (remaining, available, [])"
| "allocate_fast gw ld service_type target_city ((c, d, avail_count) # candidates) remaining
     available =
     (if remaining \<le> 0 then Inr (remaining, available, [])
      else
        (let dispatch_count = min avail_count remaining in
         (case endpoint_fast service_type of
            None \<Rightarrow> allocate_fast gw ld service_type target_city candidates remaining available
          | Some endpoint \<Rightarrow>
              (case map_of available c of
                 None \<Rightarrow> Inl KeyError
               | Some current \<Rightarrow>
                   (case allocate_fast gw ld service_type target_city candidates
                           (remaining - dispatch_count)
                           (AList.update c (current - dispatch_count) available) of
                      Inl e \<Rightarrow> Inl e
                    | Inr (r, available', evs) \<Rightarrow>
                        Inr (r, available',
                             dispatch gw endpoint c target_city dispatch_count ld @ evs))))))"

text \<open>Lines 189-240: the loop over the requests. \<^verbatim>\<open>available_resources\<close> is threaded
  because a later request of the same type sees the counts the earlier one left.\<close>

fun process_requests_fast ::
  "('f, 'd::linorder) arith \<Rightarrow> gateway \<Rightarrow> 'f location_details \<Rightarrow> string \<Rightarrow> request list \<Rightarrow> bool \<Rightarrow> cache
     \<Rightarrow> error + bool \<times> cache \<times> event list" where
  "process_requests_fast ar gw ld target_city [] all_success available_resources =
     Inr (all_success, available_resources, [])"
| "process_requests_fast ar gw ld target_city (req # reqs) all_success available_resources =
     (if req_Quantity req \<le> 0 then
        process_requests_fast ar gw ld target_city reqs all_success available_resources
      else
        (case ld target_city of
           None \<Rightarrow> process_requests_fast ar gw ld target_city reqs all_success available_resources
         | Some tgt \<Rightarrow>
             (case available_resources (req_Type req) of
                None \<Rightarrow>
                  process_requests_fast ar gw ld target_city reqs all_success available_resources
              | Some available \<Rightarrow>
                  (case allocate_fast gw ld (req_Type req) target_city
                          (rank_candidates ar ld (latitude tgt, longitude tgt) available)
                          (req_Quantity req) available of
                     Inl e \<Rightarrow> Inl e
                   | Inr (remaining, available', evs1) \<Rightarrow>
                       (case process_requests_fast ar gw ld target_city reqs
                               (if remaining > 0 then False else all_success)
                               (available_resources(req_Type req \<mapsto> available')) of
                          Inl e \<Rightarrow> Inl e
                        | Inr (ok, res, evs) \<Rightarrow> Inr (ok, res, evs1 @ evs))))))"

text \<open>
  \<^verbatim>\<open>process_multi_service_emergency\<close> of \<^verbatim>\<open>fast_simulation.py\<close>, lines 163-240. The
  three availability responses are parameters; \<^verbatim>\<open>future.result()\<close> re-raises what a
  fetch raised, in the order Medical, Fire, Police.
\<close>

definition process_multi_service_emergency ::
  "('f, 'd::linorder) arith \<Rightarrow> gateway \<Rightarrow> emergency_call \<Rightarrow> 'f location_details \<Rightarrow> api_data \<Rightarrow> api_data \<Rightarrow> api_data
     \<Rightarrow> error + bool \<times> cache \<times> event list" where
  "process_multi_service_emergency ar gw call ld med_data fire_data police_data =
     (case call_city call of
        None \<Rightarrow> Inr (False, Map.empty, [])
      | Some target_city \<Rightarrow>
          (if target_city = [] then Inr (False, Map.empty, [])
           else if requests call = [] then Inr (False, Map.empty, [])
           else
             (case get_available med_data of Inl e \<Rightarrow> Inl e | Inr med \<Rightarrow>
             (case get_available fire_data of Inl e \<Rightarrow> Inl e | Inr fire \<Rightarrow>
             (case get_available police_data of Inl e \<Rightarrow> Inl e | Inr police \<Rightarrow>
                process_requests_fast ar gw ld target_city (requests call) True
                  [''Medical'' \<mapsto> med, ''Fire'' \<mapsto> fire, ''Police'' \<mapsto> police])))))"

section \<open>\<^verbatim>\<open>main.py\<close>: ambulances only\<close>

text \<open>A call as \<^verbatim>\<open>process_emergency\<close> reads it (after \<^verbatim>\<open>json.loads\<close>): the city, the
  three alternative count keys, and the \<^verbatim>\<open>requests\<close> list when there is one.\<close>

record ambulance_call =
  amb_city :: "string option"
  amb_needed :: "int option"
  amb_required :: "int option"
  amb_count :: "int option"
  amb_requests :: "request list option"

text \<open>Python's \<^verbatim>\<open>a or b\<close> on optional integers: \<^verbatim>\<open>None\<close> and 0 are falsy.\<close>

definition int_or :: "int option \<Rightarrow> int option \<Rightarrow> int option" where
  "int_or a b = (case a of Some v \<Rightarrow> (if v = 0 then b else Some v) | None \<Rightarrow> b)"

text \<open>Lines 187-194: the greedy walk with \<^verbatim>\<open>dispatch_ambulances\<close>.\<close>

fun allocate_main ::
  "gateway \<Rightarrow> 'f location_details \<Rightarrow> string \<Rightarrow> (string \<times> 'd \<times> int) list \<Rightarrow> int
     \<Rightarrow> availability \<Rightarrow> error + int \<times> availability \<times> event list" where
  "allocate_main gw ld target_city [] remaining available = Inr (remaining, available, [])"
| "allocate_main gw ld target_city ((c, d, avail_count) # candidates) remaining available =
     (if remaining \<le> 0 then Inr (remaining, available, [])
      else
        (let dispatch_count = min avail_count remaining in
         (case map_of available c of
            None \<Rightarrow> Inl KeyError
          | Some current \<Rightarrow>
              (case allocate_main gw ld target_city candidates (remaining - dispatch_count)
                      (AList.update c (current - dispatch_count) available) of
                 Inl e \<Rightarrow> Inl e
               | Inr (r, available', evs) \<Rightarrow>
                   Inr (r, available',
                        dispatch gw ''/medical/dispatch'' c target_city dispatch_count ld
                          @ evs)))))"

text \<open>\<^verbatim>\<open>process_emergency\<close> of \<^verbatim>\<open>main.py\<close>, lines 129-201.\<close>

definition process_emergency ::
  "('f, 'd::linorder) arith \<Rightarrow> gateway \<Rightarrow> ambulance_call \<Rightarrow> 'f location_details \<Rightarrow> availability
     \<Rightarrow> error + bool \<times> availability \<times> event list" where
  "process_emergency ar gw call ld available =
     (case amb_city call of
        None \<Rightarrow> Inr (False, available, [])
      | Some target_city \<Rightarrow>
          (if target_city = [] then Inr (False, available, [])
           else
             (case (case int_or (int_or (amb_needed call) (amb_required call)) (amb_count call) of
                      Some n \<Rightarrow> Some n
                    | None \<Rightarrow>
                        (case amb_requests call of
                           Some reqs \<Rightarrow> Some (sum_list (map req_Quantity reqs))
                         | None \<Rightarrow> None)) of
                None \<Rightarrow> Inr (False, available, [])
              | Some ambulances_needed \<Rightarrow>
                  (if ambulances_needed = 0 \<or> ambulances_needed \<le> 0 then
                     Inr (False, available, [])
                   else
                     (case ld target_city of
                        None \<Rightarrow> Inr (False, available, [])
                      | Some tgt \<Rightarrow>
                          (case allocate_main gw ld target_city
                                  (rank_candidates ar ld (latitude tgt, longitude tgt) available)
                                  ambulances_needed available of
                             Inl e \<Rightarrow> Inl e
                           | Inr (remaining, available', evs) \<Rightarrow>
                               Inr (\<not> remaining > 0, available', evs)))))))"

section \<open>The allocation rule in the specification's words\<close>

text \<open>
  The amounts the specification's greedy walk takes from counts listed in ranked order:
  from each candidate \<open>min(count, remaining)\<close>, stopping once nothing remains. It is
  compared below with what \<^const>\<open>allocate_fast\<close> does.
\<close>

fun spec_greedy_amounts :: "int \<Rightarrow> int list \<Rightarrow> int list" where
  "spec_greedy_amounts remaining [] = []"
| "spec_greedy_amounts remaining (n # ns) =
     (if remaining \<le> 0 then []
      else min n remaining # spec_greedy_amounts (remaining - min n remaining) ns)"

section \<open>Test scenarios\<close>

text \<open>
  The specification's scenarios A and B: target T, candidate A at distance 1 and
  candidate B at distance 2 (and a city C, also at distance 1, for ties).
  The availability response lists B before A, so the ranking has work to do.
  \<open>exact_arith\<close> is arithmetic without rounding; on the coordinates used here, small
  whole numbers, double precision computes the same differences and distances.
\<close>

definition exact_arith :: "(real, real) arith" where
  "exact_arith = \<lparr>fsub = (\<lambda>a b. a - b), hypot = (\<lambda>a b. sqrt (a\<^sup>2 + b\<^sup>2))\<rparr>"

definition scenario_locations :: "real location_details" where
  "scenario_locations =
     [''T'' \<mapsto> \<lparr>county = ''CT'', city = ''T'', latitude = 1, longitude = 1\<rparr>,
      ''A'' \<mapsto> \<lparr>county = ''CA'', city = ''A'', latitude = 1, longitude = 2\<rparr>,
      ''B'' \<mapsto> \<lparr>county = ''CB'', city = ''B'', latitude = 3, longitude = 1\<rparr>,
      ''C'' \<mapsto> \<lparr>county = ''CC'', city = ''C'', latitude = 2, longitude = 1\<rparr>]"

definition scenario_order :: "string \<Rightarrow> string \<Rightarrow> int \<Rightarrow> payload" where
  "scenario_order src_county src q =
     \<lparr>sourceCounty = src_county, sourceCity = src, targetCounty = ''CT'', targetCity = ''T'',
      quantity = q\<rparr>"

definition scenario_medical :: api_data where
  "scenario_medical = ApiList
     [\<lparr>item_city = Some ''B'', item_name = None, item_available = Some 3, item_quantity = None\<rparr>,
      \<lparr>item_city = Some ''A'', item_name = None, item_available = Some 5, item_quantity = None\<rparr>]"

definition scenario_other :: api_data where
  "scenario_other = ApiList
     [\<lparr>item_city = Some ''A'', item_name = None, item_available = Some 1, item_quantity = None\<rparr>]"

section \<open>Sequences of takes and the order of effects\<close>

text \<open>Any number of takes on one (service type, city) pair, one after the other, each a
  run of the critical section \<^const>\<open>try_take\<close>; the amounts taken are listed in order.\<close>

fun take_sequence :: "cache \<Rightarrow> string \<Rightarrow> string \<Rightarrow> int list \<Rightarrow> int list \<times> cache" where
  "take_sequence ch service_type c [] = ([], ch)"
| "take_sequence ch service_type c (r # rs) =
     (case try_take ch service_type c r of
        (dispatch_count, ch1, writes) \<Rightarrow>
          (case take_sequence ch1 service_type c rs of
             (taken, ch2) \<Rightarrow> (dispatch_count # taken, ch2)))"

text \<open>A check on a list of effects: every POST comes directly after a cache write for
  the city the order leaves from.\<close>

fun writes_precede_posts :: "event list \<Rightarrow> bool" where
  "writes_precede_posts [] = True"
| "writes_precede_posts (CacheWrite s c v # Post ep p ok # es) =
     (sourceCity p = c \<and> writes_precede_posts es)"
| "writes_precede_posts (CacheWrite s c v # es) = writes_precede_posts es"
| "writes_precede_posts (Post ep p ok # es) = False"

section \<open>More test inputs\<close>

definition hazmat_call :: emergency_call where
  "hazmat_call = \<lparr>call_city = Some ''T'',
                   requests = [\<lparr>req_Type = ''Hazmat'', req_Quantity = 3\<rparr>]\<rparr>"

definition empty_call :: emergency_call where
  "empty_call = \<lparr>call_city = Some ''T'', requests = []\<rparr>"

definition mixed_call :: emergency_call where
  "mixed_call = \<lparr>call_city = Some ''T'',
                  requests = [\<lparr>req_Type = ''Medical'', req_Quantity = 6\<rparr>,
                              \<lparr>req_Type = ''Hazmat'', req_Quantity = 2\<rparr>,
                              \<lparr>req_Type = ''Medical'', req_Quantity = 0\<rparr>]\<rparr>"

definition scenario_cache :: cache where
  "scenario_cache = [''Medical'' \<mapsto> [(''B'', 3), (''A'', 5)]]"

definition medical_call :: emergency_call where
  "medical_call = \<lparr>call_city = Some ''T'',
                    requests = [\<lparr>req_Type = ''Medical'', req_Quantity = 6\<rparr>]\<rparr>"

definition atlantis_call :: emergency_call where
  "atlantis_call = \<lparr>call_city = Some ''Atlantis'',
                     requests = [\<lparr>req_Type = ''Medical'', req_Quantity = 2\<rparr>]\<rparr>"

definition zero_ambulance_call :: ambulance_call where
  "zero_ambulance_call =
     \<lparr>amb_city = Some ''T'', amb_needed = None, amb_required = None, amb_count = None,
      amb_requests = Some [\<lparr>req_Type = ''Medical'', req_Quantity = 0\<rparr>]\<rparr>"

definition negative_ambulance_call :: ambulance_call where
  "negative_ambulance_call =
     \<lparr>amb_city = Some ''T'', amb_needed = None, amb_required = None, amb_count = None,
      amb_requests = Some [\<lparr>req_Type = ''Medical'', req_Quantity = - 2\<rparr>,
                           \<lparr>req_Type = ''Medical'', req_Quantity = 5\<rparr>]\<rparr>"

definition positive_ambulance_call :: ambulance_call where
  "positive_ambulance_call =
     \<lparr>amb_city = Some ''T'', amb_needed = None, amb_required = None, amb_count = None,
      amb_requests = Some [\<lparr>req_Type = ''Medical'', req_Quantity = 5\<rparr>]\<rparr>"

section \<open>The refresh and the lock, statement by statement\<close>

text \<open>
  To say what a task can see while it holds \<^verbatim>\<open>cache_lock\<close>, the locked block of
  \<^verbatim>\<open>update_availability_cache\<close> is taken apart: acquiring the lock, each assignment
  \<^verbatim>\<open>availability_cache[...] = ...\<close> and releasing the lock are steps of their own, and
  the steps of the call processors may be scheduled between any two of them. This is a
  finer interleaving than the event loop allows (it switches tasks only at an
  \<^verbatim>\<open>await\<close>), so every schedule of the program is one of the model.

  A call processor touches the cache only inside \<^verbatim>\<open>async with cache_lock\<close>: it reads it
  (the candidate list of \<^verbatim>\<open>aioHttp3.py\<close> lines 153-163, \<^verbatim>\<open>aioHttp.py\<close> lines 145-159) or
  writes it (the take of \<^verbatim>\<open>aioHttp3.py\<close> lines 171-175, the decrement of \<^verbatim>\<open>aioHttp.py\<close>
  lines 180-181). \<^verbatim>\<open>asyncio.Lock.acquire\<close> goes through only when the lock is free.
\<close>

datatype task = Refresher | Processor nat

text \<open>Where the refresher is: before its locked block, inside it with \<open>i\<close> assignments
  made, or past it.\<close>

datatype refresh_pc = Idle | Writing nat | Done

datatype 'w action = Acquire task | Assign | Release task | Snapshot nat | Write nat 'w

record system =
  sys_cache :: cache
  sys_lock :: "task option"
  sys_pc :: refresh_pc
  sys_seen :: "cache list"

text \<open>The assignments of \<^verbatim>\<open>aioHttp3.py\<close> lines 117-121 and of \<^verbatim>\<open>aioHttp.py\<close> lines
  112-114, in program order.\<close>

definition assignments ::
  "availability \<Rightarrow> availability \<Rightarrow> availability \<Rightarrow> availability \<Rightarrow> availability
     \<Rightarrow> (string \<times> availability) list" where
  "assignments med fire police rescue utility =
     [(''Medical'', med), (''Fire'', fire), (''Police'', police), (''Rescue'', rescue),
      (''Utility'', utility)]"

definition assignments_aioHttp ::
  "availability \<Rightarrow> availability \<Rightarrow> availability \<Rightarrow> (string \<times> availability) list" where
  "assignments_aioHttp med fire police =
     [(''Medical'', med), (''Fire'', fire), (''Police'', police)]"

text \<open>What a call processor writes under the lock: the take of \<^verbatim>\<open>aioHttp3.py\<close>, the
  decrement of \<^verbatim>\<open>aioHttp.py\<close> (nothing is written when it raises).\<close>

definition take_write :: "string \<times> string \<times> int \<Rightarrow> cache \<Rightarrow> cache" where
  "take_write w ch = (case w of (service_type, c, remaining) \<Rightarrow>
      fst (snd (try_take ch service_type c remaining)))"

definition decrement_write :: "string \<times> string \<times> int \<Rightarrow> cache \<Rightarrow> cache" where
  "decrement_write w ch = (case w of (service_type, c, dispatch_count) \<Rightarrow>
      (case decrement_aioHttp ch service_type c dispatch_count of
         Inl e \<Rightarrow> ch
       | Inr (ch', writes) \<Rightarrow> ch'))"

text \<open>One step of one task; \<^const>\<open>None\<close> when the task cannot take that step in this
  state (the lock is held by another task, or the refresher is elsewhere in its block).
  A snapshot records the cache the processor read.\<close>

fun step ::
  "('w \<Rightarrow> cache \<Rightarrow> cache) \<Rightarrow> (string \<times> availability) list \<Rightarrow> 'w action \<Rightarrow> system
     \<Rightarrow> system option" where
  "step upd news (Acquire Refresher) s =
     (if sys_lock s = None \<and> sys_pc s = Idle
      then Some (s\<lparr>sys_lock := Some Refresher, sys_pc := Writing 0\<rparr>) else None)"
| "step upd news (Acquire (Processor k)) s =
     (if sys_lock s = None then Some (s\<lparr>sys_lock := Some (Processor k)\<rparr>) else None)"
| "step upd news Assign s =
     (case sys_pc s of
        Writing i \<Rightarrow>
          (if i < length news
           then Some (s\<lparr>sys_cache := (sys_cache s)(fst (news ! i) \<mapsto> snd (news ! i)),
                        sys_pc := Writing (Suc i)\<rparr>)
           else None)
      | _ \<Rightarrow> None)"
| "step upd news (Release Refresher) s =
     (if sys_pc s = Writing (length news)
      then Some (s\<lparr>sys_lock := None, sys_pc := Done\<rparr>) else None)"
| "step upd news (Release (Processor k)) s =
     (if sys_lock s = Some (Processor k) then Some (s\<lparr>sys_lock := None\<rparr>) else None)"
| "step upd news (Snapshot k) s =
     (if sys_lock s = Some (Processor k)
      then Some (s\<lparr>sys_seen := sys_seen s @ [sys_cache s]\<rparr>) else None)"
| "step upd news (Write k w) s =
     (if sys_lock s = Some (Processor k)
      then Some (s\<lparr>sys_cache := upd w (sys_cache s)\<rparr>) else None)"

fun run ::
  "('w \<Rightarrow> cache \<Rightarrow> cache) \<Rightarrow> (string \<times> availability) list \<Rightarrow> 'w action list \<Rightarrow> system
     \<Rightarrow> system option" where
  "run upd news [] s = Some s"
| "run upd news (a # acts) s =
     (case step upd news a s of None \<Rightarrow> None | Some s' \<Rightarrow> run upd news acts s')"

text \<open>A cache after some processor writes, and a cache after all the assignments of a
  cycle.\<close>

definition writes_applied :: "('w \<Rightarrow> cache \<Rightarrow> cache) \<Rightarrow> 'w list \<Rightarrow> cache \<Rightarrow> cache" where
  "writes_applied upd ws ch = foldl (\<lambda>c w. upd w c) ch ws"

definition replaced :: "(string \<times> availability) list \<Rightarrow> cache \<Rightarrow> cache" where
  "replaced news ch = foldl (\<lambda>c kv. c(fst kv \<mapsto> snd kv)) ch news"

text \<open>The caches that descend from the cache before the cycle by processor writes alone,
  those that descend from a completely refreshed cache, and those in which the first
  \<open>i\<close> assignments have been made; then the invariant of the protocol.\<close>

definition from_old :: "('w \<Rightarrow> cache \<Rightarrow> cache) \<Rightarrow> cache \<Rightarrow> cache \<Rightarrow> bool" where
  "from_old upd old c \<longleftrightarrow> (\<exists>ws. c = writes_applied upd ws old)"

definition from_new ::
  "('w \<Rightarrow> cache \<Rightarrow> cache) \<Rightarrow> (string \<times> availability) list \<Rightarrow> cache \<Rightarrow> cache \<Rightarrow> bool" where
  "from_new upd news old c \<longleftrightarrow>
     (\<exists>ws ws'. c = writes_applied upd ws' (replaced news (writes_applied upd ws old)))"

definition part_new ::
  "('w \<Rightarrow> cache \<Rightarrow> cache) \<Rightarrow> (string \<times> availability) list \<Rightarrow> cache \<Rightarrow> nat \<Rightarrow> cache \<Rightarrow> bool" where
  "part_new upd news old i c \<longleftrightarrow>
     (\<exists>ws. c = replaced (take i news) (writes_applied upd ws old))"

definition lock_invariant ::
  "('w \<Rightarrow> cache \<Rightarrow> cache) \<Rightarrow> (string \<times> availability) list \<Rightarrow> cache \<Rightarrow> system \<Rightarrow> bool" where
  "lock_invariant upd news old s \<longleftrightarrow>
     (\<forall>c \<in> set (sys_seen s). from_old upd old c \<or> from_new upd news old c) \<and>
     (case sys_pc s of
        Idle \<Rightarrow> sys_lock s \<noteq> Some Refresher \<and> from_old upd old (sys_cache s)
      | Writing i \<Rightarrow> sys_lock s = Some Refresher \<and> i \<le> length news \<and>
           part_new upd news old i (sys_cache s)
      | Done \<Rightarrow> sys_lock s \<noteq> Some Refresher \<and> from_new upd news old (sys_cache s))"

definition mixed_schedule :: "(string \<times> string \<times> int) action list" where
  "mixed_schedule =
     [Acquire (Processor 0), Snapshot 0, Write 0 (''Medical'', ''A'', 2), Release (Processor 0),
      Acquire Refresher, Assign, Assign, Assign, Assign, Assign, Release Refresher,
      Acquire (Processor 1), Snapshot 1]"

section \<open>Properties\<close>

subsection \<open>The take primitive of \<^verbatim>\<open>aioHttp3.py\<close>\<close>

lemma try_take_known:
  assumes "ch st = Some av" "map_of av c = Some cur" "0 \<le> cur" "0 < r"
  shows "try_take ch st c r =
          (min cur r, ch(st \<mapsto> AList.update c (cur - min cur r) av),
           if cur > 0 then [CacheWrite st c (cur - min cur r)] else [])"
proof (cases "cur > 0")
  case True
  then show ?thesis using assms by (simp add: try_take_def Let_def)
next
  case False
  then have z: "cur = 0" using assms by simp
  have "AList.update c 0 av = av" using assms z by (simp add: AList.update_triv)
  then have "ch(st \<mapsto> AList.update c 0 av) = ch" using assms by (simp add: fun_upd_idem)
  then show ?thesis using assms z by (simp add: try_take_def)
qed

lemma try_take_unknown:
  "ch st = None \<or> (ch st = Some av \<and> map_of av c = None) \<Longrightarrow> try_take ch st c r = (0, ch, [])"
  by (auto simp: try_take_def)

text \<open>
  Claim C2. For a service type and a city that the cache knows, with a count
  \<open>cur \<ge> 0\<close> (the data model's counts) and a positive request \<open>r\<close>, the take
  returns exactly \<open>min cur r\<close>, the city's count becomes \<open>cur - min cur r\<close>, the
  order of the keys, every other city and every other service type are untouched. For
  a service type the cache does not have, or a city its mapping does not have, the
  take returns 0, raises nothing and leaves the cache as it was.
\<close>

theorem try_take_spec:
  "(ch st = Some av \<and> map_of av c = Some cur \<and> 0 \<le> cur \<and> 0 < r \<longrightarrow>
      fst (try_take ch st c r) = min cur r \<and>
      (\<exists>av'. fst (snd (try_take ch st c r)) st = Some av' \<and>
             map_of av' c = Some (cur - min cur r) \<and>
             map fst av' = map fst av \<and>
             (\<forall>c'. c' \<noteq> c \<longrightarrow> map_of av' c' = map_of av c')) \<and>
      (\<forall>st'. st' \<noteq> st \<longrightarrow> fst (snd (try_take ch st c r)) st' = ch st'))
   \<and> ((ch st = None \<or> (ch st = Some av \<and> map_of av c = None)) \<longrightarrow>
        try_take ch st c r = (0, ch, []))"
proof (intro conjI impI)
  assume a: "ch st = Some av \<and> map_of av c = Some cur \<and> 0 \<le> cur \<and> 0 < r"
  then have e: "try_take ch st c r =
          (min cur r, ch(st \<mapsto> AList.update c (cur - min cur r) av),
           if cur > 0 then [CacheWrite st c (cur - min cur r)] else [])"
    by (simp add: try_take_known)
  show "fst (try_take ch st c r) = min cur r" by (simp add: e)
  have k: "c \<in> fst ` set av"
    using a by (auto dest: map_of_SomeD simp: image_iff intro: bexI[where x="(c, cur)"])
  show "\<exists>av'. fst (snd (try_take ch st c r)) st = Some av' \<and>
             map_of av' c = Some (cur - min cur r) \<and>
             map fst av' = map fst av \<and>
             (\<forall>c'. c' \<noteq> c \<longrightarrow> map_of av' c' = map_of av c')"
    using k by (simp add: e AList.update_conv' AList.update_keys)
  show "\<forall>st'. st' \<noteq> st \<longrightarrow> fst (snd (try_take ch st c r)) st' = ch st'"
    by (simp add: e)
next
  assume "ch st = None \<or> (ch st = Some av \<and> map_of av c = None)"
  then show "try_take ch st c r = (0, ch, [])"
    by (rule try_take_unknown)
qed

theorem try_take_spec_witness:
  "fst (try_take [''Medical'' \<mapsto> [(''Cluj'', 5), (''Arad'', 2)]] ''Medical'' ''Arad'' 3) = min 2 3
   \<and> try_take [''Medical'' \<mapsto> [(''Cluj'', 5)]] ''Medical'' ''Arad'' 3
       = (0, [''Medical'' \<mapsto> [(''Cluj'', 5)]], [])"
  using try_take_spec [of "[''Medical'' \<mapsto> [(''Cluj'', 5), (''Arad'', 2)]]" "''Medical''"
                         "[(''Cluj'', 5), (''Arad'', 2)]" "''Arad''" 2 3]
        try_take_spec [of "[''Medical'' \<mapsto> [(''Cluj'', 5)]]" "''Medical''"
                         "[(''Cluj'', 5)]" "''Arad''" 0 3]
  by simp

subsection \<open>The candidate ranker\<close>


lemma set_build_candidates:
  "set (build_candidates ar ld tc snap)
   = {(c, euclidean_distance ar (latitude loc, longitude loc) tc, n) | c n loc.
        (c, n) \<in> set snap \<and> n > 0 \<and> ld c = Some loc}"
  by (induction ar ld tc snap rule: build_candidates.induct) (auto split: option.splits)



text \<open>Without rounding the computed distance is the Euclidean one.\<close>

lemma euclidean_distance_exact:
  "euclidean_distance exact_arith coord1 coord2
     = sqrt ((fst coord1 - fst coord2)\<^sup>2 + (snd coord1 - snd coord2)\<^sup>2)"
  by (simp add: euclidean_distance_def exact_arith_def)

text \<open>Two candidates whose computed distances coincide stay in snapshot order, however
  their exact distances compare.\<close>

lemma rank_candidates_tie:
  assumes "ld p = Some lp" "ld q = Some lq" "0 < n" "0 < m"
    and "euclidean_distance ar (latitude lp, longitude lp) tc
           = euclidean_distance ar (latitude lq, longitude lq) tc"
  shows "map fst (rank_candidates ar ld tc [(p, n), (q, m)]) = [p, q]"
  using assms by (simp add: rank_candidates_def)

subsection \<open>The greedy walk of \<^verbatim>\<open>fast_simulation.py\<close>\<close>

lemma length_spec_greedy: "length (spec_greedy_amounts r ns) \<le> length ns"
  by (induction ns arbitrary: r) auto

lemma spec_greedy_pos:
  "\<forall>n \<in> set ns. 0 < n \<Longrightarrow> i < length (spec_greedy_amounts r ns) \<Longrightarrow>
     0 < spec_greedy_amounts r ns ! i \<and> spec_greedy_amounts r ns ! i \<le> ns ! i"
proof (induction ns arbitrary: r i)
  case Nil
  then show ?case by simp
next
  case (Cons n ns)
  then show ?case by (cases i) (auto split: if_splits)
qed

lemma spec_greedy_nonempty: "spec_greedy_amounts r ns \<noteq> [] \<Longrightarrow> 0 < r"
  by (cases ns) (auto split: if_splits)

lemma spec_greedy_exhaust:
  "Suc i < length (spec_greedy_amounts r ns) \<Longrightarrow> spec_greedy_amounts r ns ! i = ns ! i"
proof (induction ns arbitrary: r i)
  case Nil
  then show ?case by simp
next
  case (Cons n ns)
  show ?case
  proof (cases "r \<le> 0")
    case True
    with Cons.prems show ?thesis by simp
  next
    case False
    let ?rest = "spec_greedy_amounts (r - min n r) ns"
    from False Cons.prems have len: "i < length ?rest" by simp
    show ?thesis
    proof (cases i)
      case 0
      from len have "?rest \<noteq> []" by auto
      then have "0 < r - min n r" by (rule spec_greedy_nonempty)
      then have "min n r = n" by simp
      with False 0 show ?thesis by simp
    next
      case (Suc k)
      with len have "Suc k < length ?rest" by simp
      then have "?rest ! k = ns ! k" by (rule Cons.IH)
      with False Suc show ?thesis by simp
    qed
  qed
qed

lemma spec_greedy_sum:
  "0 \<le> r \<Longrightarrow> \<forall>n \<in> set ns. 0 < n \<Longrightarrow>
   r - sum_list (spec_greedy_amounts r ns) = max 0 (r - sum_list ns)"
proof (induction ns arbitrary: r)
  case Nil
  then show ?case by simp
next
  case (Cons n ns)
  have ns_nonneg: "0 \<le> sum_list ns" using Cons.prems by (simp add: sum_list_nonneg less_imp_le)
  show ?case
  proof (cases "r \<le> 0")
    case True
    with Cons.prems ns_nonneg show ?thesis by simp
  next
    case False
    have "0 \<le> r - min n r" by simp
    moreover have "\<forall>n \<in> set ns. 0 < n" using Cons.prems by simp
    ultimately have "r - min n r - sum_list (spec_greedy_amounts (r - min n r) ns)
        = max 0 (r - min n r - sum_list ns)" by (rule Cons.IH)
    with False ns_nonneg show ?thesis by (simp add: min_def max_def split: if_splits)
  qed
qed

lemma spec_greedy_all:
  "\<forall>n \<in> set ns. 0 < n \<Longrightarrow> 0 < r - sum_list (spec_greedy_amounts r ns) \<Longrightarrow>
   spec_greedy_amounts r ns = ns"
proof (induction ns arbitrary: r)
  case Nil
  then show ?case by simp
next
  case (Cons n ns)
  show ?case
  proof (cases "r \<le> 0")
    case True
    with Cons.prems show ?thesis by simp
  next
    case False
    let ?rest = "spec_greedy_amounts (r - min n r) ns"
    from False Cons.prems have pos: "0 < r - min n r - sum_list ?rest" by simp
    have nn: "\<forall>n \<in> set ns. 0 < n" using Cons.prems by simp
    then have eq: "?rest = ns" using pos by (rule Cons.IH)
    have "0 \<le> sum_list ns" using nn by (simp add: sum_list_nonneg less_imp_le)
    with pos eq have "min n r < r" by simp
    then have "min n r = n" by simp
    with False eq show ?thesis by simp
  qed
qed

lemma allocate_fast_run:
  assumes ep: "endpoint_fast st = Some ep"
  shows "(\<forall>cand \<in> set cands. map_of available (fst cand) = Some (snd (snd cand))) \<Longrightarrow>
         distinct (map fst cands) \<Longrightarrow>
         \<exists>av'. allocate_fast gw ld st target cands r available =
           Inr (r - sum_list (spec_greedy_amounts r (map (\<lambda>cand. snd (snd cand)) cands)), av',
                concat (map2 (\<lambda>cand a. dispatch gw ep (fst cand) target a ld) cands
                           (spec_greedy_amounts r (map (\<lambda>cand. snd (snd cand)) cands)))) \<and>
           map fst av' = map fst available \<and>
           (\<forall>c. map_of av' c =
                 (case map_of (zip (map fst cands)
                         (spec_greedy_amounts r (map (\<lambda>cand. snd (snd cand)) cands))) c of
                    None \<Rightarrow> map_of available c
                  | Some a \<Rightarrow> map_option (\<lambda>n. n - a) (map_of available c)))"
proof (induction cands arbitrary: r available)
  case Nil
  then show ?case by simp
next
  case (Cons cand cands)
  obtain c d n where cand: "cand = (c, d, n)" by (cases cand) auto
  show ?case
  proof (cases "r \<le> 0")
    case True
    then show ?thesis by (simp add: cand)
  next
    case False
    let ?a = "min n r"
    let ?av1 = "AList.update c (n - ?a) available"
    let ?amts = "spec_greedy_amounts (r - ?a) (map (\<lambda>cand. snd (snd cand)) cands)"
    have cur: "map_of available c = Some n" using Cons.prems(1) by (simp add: cand)
    have notin: "c \<notin> fst ` set cands" using Cons.prems(2) by (simp add: cand)
    have p1: "\<forall>x \<in> set cands. map_of ?av1 (fst x) = Some (snd (snd x))"
    proof
      fix x assume x: "x \<in> set cands"
      then have "fst x \<noteq> c" using notin by auto
      then show "map_of ?av1 (fst x) = Some (snd (snd x))"
        using Cons.prems(1) x by (simp add: AList.update_conv')
    qed
    have p2: "distinct (map fst cands)" using Cons.prems(2) by simp
    from Cons.IH [OF p1 p2, of "r - ?a"] obtain av' where
      run: "allocate_fast gw ld st target cands (r - ?a) ?av1 =
              Inr (r - ?a - sum_list ?amts, av',
                   concat (map2 (\<lambda>cand a. dispatch gw ep (fst cand) target a ld) cands ?amts))"
      and keys: "map fst av' = map fst ?av1"
      and cnt: "\<forall>c'. map_of av' c' =
                 (case map_of (zip (map fst cands) ?amts) c' of
                    None \<Rightarrow> map_of ?av1 c'
                  | Some a \<Rightarrow> map_option (\<lambda>n. n - a) (map_of ?av1 c'))"
      by blast
    have cin: "c \<in> fst ` set available"
      using cur by (auto dest: map_of_SomeD simp: image_iff intro: bexI[where x="(c, n)"])
    have zipnone: "map_of (zip (map fst cands) ?amts) c = None"
      using notin by (auto simp: map_of_eq_None_iff dest!: set_zip_leftD)
    have "allocate_fast gw ld st target (cand # cands) r available =
           Inr (r - sum_list (?a # ?amts), av',
                concat (map2 (\<lambda>cand a. dispatch gw ep (fst cand) target a ld) (cand # cands)
                           (?a # ?amts)))"
      using False ep cur run by (simp add: cand Let_def)
    moreover have "map fst av' = map fst available"
      using keys cin by (simp add: AList.update_keys)
    moreover have "\<forall>c'. map_of av' c' =
                 (case map_of (zip (map fst (cand # cands)) (?a # ?amts)) c' of
                    None \<Rightarrow> map_of available c'
                  | Some a \<Rightarrow> map_option (\<lambda>n. n - a) (map_of available c'))"
    proof
      fix c'
      show "map_of av' c' =
                 (case map_of (zip (map fst (cand # cands)) (?a # ?amts)) c' of
                    None \<Rightarrow> map_of available c'
                  | Some a \<Rightarrow> map_option (\<lambda>n. n - a) (map_of available c'))"
      proof (cases "c' = c")
        case True
        then show ?thesis using cnt zipnone cur by (simp add: cand AList.update_conv')
      next
        case False
        then show ?thesis using cnt by (simp add: cand AList.update_conv' split: option.split)
      qed
    qed
    ultimately show ?thesis using False by (simp add: cand)
  qed
qed

lemma map_of_zip_short_Some:
  "distinct xs \<Longrightarrow> i < length ys \<Longrightarrow> length ys \<le> length xs \<Longrightarrow>
     map_of (zip xs ys) (xs ! i) = Some (ys ! i)"
proof (induction xs arbitrary: ys i)
  case Nil
  then show ?case by simp
next
  case (Cons x xs)
  then show ?case
    by (cases ys; cases i) (auto dest: set_zip_leftD)
qed

lemma map_of_zip_short_None:
  "distinct xs \<Longrightarrow> length ys \<le> i \<Longrightarrow> i < length xs \<Longrightarrow> map_of (zip xs ys) (xs ! i) = None"
proof (induction xs arbitrary: ys i)
  case Nil
  then show ?case by simp
next
  case (Cons x xs)
  then show ?case
    by (cases ys; cases i) (auto dest: set_zip_leftD)
qed

lemma distinct_build_candidates:
  "distinct (map fst snap) \<Longrightarrow> distinct (map fst (build_candidates ar ld tc snap))"
proof (induction ar ld tc snap rule: build_candidates.induct)
  case (1 ar ld tc)
  then show ?case by simp
next
  case (2 ar ld tc c count rest)
  have "c \<notin> fst ` set (build_candidates ar ld tc rest)"
    using "2.prems" by (auto simp: set_build_candidates image_iff)
  then show ?case using 2 by (auto split: option.splits)
qed

lemma distinct_rank_candidates:
  assumes "distinct (map fst snap)"
  shows "distinct (map fst (rank_candidates ar ld tc snap))"
proof -
  have "distinct (map fst (build_candidates ar ld tc snap))"
    using assms by (rule distinct_build_candidates)
  then show ?thesis
    unfolding rank_candidates_def by (simp add: distinct_map)
qed

lemma rank_candidates_member:
  assumes "cand \<in> set (rank_candidates ar ld tc snap)"
  shows "(fst cand, snd (snd cand)) \<in> set snap \<and> 0 < snd (snd cand) \<and>
         (\<exists>loc. ld (fst cand) = Some loc)"
  using assms unfolding rank_candidates_def by (auto simp: set_build_candidates)

lemma dispatch_known:
  "ld c = Some src \<Longrightarrow> ld target = Some tgt \<Longrightarrow>
   dispatch gw ep c target a ld =
     [Post ep \<lparr>sourceCounty = county src, sourceCity = city src,
               targetCounty = county tgt, targetCity = city tgt, quantity = a\<rparr>
        (gw ep \<lparr>sourceCounty = county src, sourceCity = city src,
               targetCounty = county tgt, targetCity = city tgt, quantity = a\<rparr>)]"
  by (simp add: dispatch_def Let_def)

lemma concat_dispatch_nth:
  "\<forall>cand \<in> set cands. \<exists>loc. ld (fst cand) = Some loc \<Longrightarrow> ld target = Some tgt \<Longrightarrow>
   length (concat (map2 (\<lambda>cand a. dispatch gw ep (fst cand) target a ld) cands amts))
     = min (length cands) (length amts) \<and>
   (\<forall>i. i < length cands \<and> i < length amts \<longrightarrow>
      concat (map2 (\<lambda>cand a. dispatch gw ep (fst cand) target a ld) cands amts) ! i
        = hd (dispatch gw ep (fst (cands ! i)) target (amts ! i) ld))"
proof (induction cands arbitrary: amts)
  case Nil
  then show ?case by simp
next
  case (Cons cand cands)
  show ?case
  proof (cases amts)
    case Nil
    then show ?thesis by simp
  next
    case (Cons a as)
    obtain loc where loc: "ld (fst cand) = Some loc" using Cons.prems(1) by auto
    have ih: "length (concat (map2 (\<lambda>cand a. dispatch gw ep (fst cand) target a ld) cands as))
     = min (length cands) (length as) \<and>
   (\<forall>i. i < length cands \<and> i < length as \<longrightarrow>
      concat (map2 (\<lambda>cand a. dispatch gw ep (fst cand) target a ld) cands as) ! i
        = hd (dispatch gw ep (fst (cands ! i)) target (as ! i) ld))"
      using Cons.prems Cons.IH [of as] by simp
    show ?thesis
    proof (intro conjI allI impI)
      show "length (concat (map2 (\<lambda>cand a. dispatch gw ep (fst cand) target a ld) (cand # cands) amts))
              = min (length (cand # cands)) (length amts)"
        using ih loc Cons.prems(2) by (simp add: Cons dispatch_known)
    next
      fix i assume "i < length (cand # cands) \<and> i < length amts"
      then show "concat (map2 (\<lambda>cand a. dispatch gw ep (fst cand) target a ld) (cand # cands) amts) ! i
        = hd (dispatch gw ep (fst ((cand # cands) ! i)) target (amts ! i) ld)"
        using ih loc Cons.prems(2) by (cases i) (simp_all add: Cons dispatch_known)
    qed
  qed
qed

lemma allocate_fast_ranked:
  assumes ep: "endpoint_fast st = Some ep" and tgt: "ld target = Some tgt"
    and dist: "distinct (map fst available)"
    and cands: "cands = rank_candidates ar ld (latitude tgt, longitude tgt) available"
  shows "\<exists>r' av' evs amts.
       allocate_fast gw ld st target cands q available = Inr (r', av', evs) \<and>
       length evs = length amts \<and> length amts \<le> length cands \<and>
       sorted (map (\<lambda>cand. fst (snd cand)) cands) \<and>
       (\<forall>i<length amts.
          (\<exists>src p. ld (fst (cands ! i)) = Some src \<and> evs ! i = Post ep p (gw ep p) \<and>
                   sourceCity p = city src \<and> targetCity p = city tgt \<and>
                   quantity p = amts ! i) \<and>
          0 < amts ! i \<and> amts ! i \<le> snd (snd (cands ! i)) \<and>
          map_of av' (fst (cands ! i)) = Some (snd (snd (cands ! i)) - amts ! i)) \<and>
       (\<forall>i. Suc i < length amts \<longrightarrow>
          amts ! i = snd (snd (cands ! i)) \<and> map_of av' (fst (cands ! i)) = Some 0) \<and>
       (\<forall>i<length cands. length amts \<le> i \<longrightarrow>
          map_of av' (fst (cands ! i)) = Some (snd (snd (cands ! i)))) \<and>
       r' = q - sum_list amts \<and>
       (0 \<le> q \<longrightarrow> r' = max 0 (q - sum_list (map (\<lambda>cand. snd (snd cand)) cands))) \<and>
       (0 < r' \<longrightarrow> amts = map (\<lambda>cand. snd (snd cand)) cands)"
proof -
  let ?ns = "map (\<lambda>cand. snd (snd cand)) cands"
  let ?amts = "spec_greedy_amounts q ?ns"
  let ?evs = "concat (map2 (\<lambda>cand a. dispatch gw ep (fst cand) target a ld) cands ?amts)"
  have mem: "\<And>cand. cand \<in> set cands \<Longrightarrow>
      (fst cand, snd (snd cand)) \<in> set available \<and> 0 < snd (snd cand) \<and>
      (\<exists>loc. ld (fst cand) = Some loc)"
    unfolding cands by (rule rank_candidates_member)
  have cnt: "\<forall>cand \<in> set cands. map_of available (fst cand) = Some (snd (snd cand))"
    using mem dist by (auto intro: map_of_is_SomeI)
  have dc: "distinct (map fst cands)"
    unfolding cands using dist by (rule distinct_rank_candidates)
  have pos: "\<forall>n \<in> set ?ns. 0 < n" using mem by auto
  have inld: "\<forall>cand \<in> set cands. \<exists>loc. ld (fst cand) = Some loc" using mem by blast
  from allocate_fast_run [OF ep cnt dc, of gw ld target q] obtain av' where
    run: "allocate_fast gw ld st target cands q available = Inr (q - sum_list ?amts, av', ?evs)"
    and final: "\<forall>c. map_of av' c =
                 (case map_of (zip (map fst cands) ?amts) c of
                    None \<Rightarrow> map_of available c
                  | Some a \<Rightarrow> map_option (\<lambda>n. n - a) (map_of available c))"
    by blast
  have len: "length ?amts \<le> length cands"
    using length_spec_greedy [of q ?ns] by simp
  from concat_dispatch_nth [OF inld tgt, of gw ep ?amts]
  have elen: "length ?evs = length ?amts"
    and enth: "\<And>i. i < length ?amts \<Longrightarrow>
                 ?evs ! i = hd (dispatch gw ep (fst (cands ! i)) target (?amts ! i) ld)"
    using len by auto
  have srt: "sorted (map (\<lambda>cand. fst (snd cand)) cands)"
    unfolding cands rank_candidates_def by (rule sorted_sort_key)
  have taken: "\<And>i. i < length ?amts \<Longrightarrow>
      map_of av' (fst (cands ! i)) = Some (snd (snd (cands ! i)) - ?amts ! i)"
  proof -
    fix i assume i: "i < length ?amts"
    then have ic: "i < length cands" using len by simp
    have "map_of (zip (map fst cands) ?amts) (map fst cands ! i) = Some (?amts ! i)"
      using dc i len by (intro map_of_zip_short_Some) simp_all
    moreover have "map_of available (fst (cands ! i)) = Some (snd (snd (cands ! i)))"
      using cnt ic by simp
    ultimately show "map_of av' (fst (cands ! i)) = Some (snd (snd (cands ! i)) - ?amts ! i)"
      using final ic by simp
  qed
  have exh: "\<And>i. Suc i < length ?amts \<Longrightarrow> ?amts ! i = snd (snd (cands ! i))"
  proof -
    fix i assume i: "Suc i < length ?amts"
    then have "?amts ! i = ?ns ! i" by (rule spec_greedy_exhaust)
    moreover have "i < length cands" using i len by simp
    ultimately show "?amts ! i = snd (snd (cands ! i))" by simp
  qed
  have c1: "\<forall>i<length ?amts.
          (\<exists>src p. ld (fst (cands ! i)) = Some src \<and> ?evs ! i = Post ep p (gw ep p) \<and>
                   sourceCity p = city src \<and> targetCity p = city tgt \<and>
                   quantity p = ?amts ! i) \<and>
          0 < ?amts ! i \<and> ?amts ! i \<le> snd (snd (cands ! i)) \<and>
          map_of av' (fst (cands ! i)) = Some (snd (snd (cands ! i)) - ?amts ! i)"
  proof (intro allI impI)
    fix i assume i: "i < length ?amts"
    then have ic: "i < length cands" using len by simp
    then have "cands ! i \<in> set cands" by simp
    then obtain src where src: "ld (fst (cands ! i)) = Some src" using inld by blast
    have "?evs ! i = hd (dispatch gw ep (fst (cands ! i)) target (?amts ! i) ld)"
      using i by (rule enth)
    then have ev: "\<exists>p. ?evs ! i = Post ep p (gw ep p) \<and>
                   sourceCity p = city src \<and> targetCity p = city tgt \<and>
                   quantity p = ?amts ! i"
      by (simp add: dispatch_known [OF src tgt])
    have "0 < ?amts ! i \<and> ?amts ! i \<le> ?ns ! i" using pos i by (rule spec_greedy_pos)
    then have bnd: "0 < ?amts ! i \<and> ?amts ! i \<le> snd (snd (cands ! i))" using ic by simp
    show "(\<exists>src p. ld (fst (cands ! i)) = Some src \<and> ?evs ! i = Post ep p (gw ep p) \<and>
                   sourceCity p = city src \<and> targetCity p = city tgt \<and>
                   quantity p = ?amts ! i) \<and>
          0 < ?amts ! i \<and> ?amts ! i \<le> snd (snd (cands ! i)) \<and>
          map_of av' (fst (cands ! i)) = Some (snd (snd (cands ! i)) - ?amts ! i)"
      using src ev bnd taken [OF i] by blast
  qed
  have c2: "\<forall>i. Suc i < length ?amts \<longrightarrow>
          ?amts ! i = snd (snd (cands ! i)) \<and> map_of av' (fst (cands ! i)) = Some 0"
  proof (intro allI impI)
    fix i assume i: "Suc i < length ?amts"
    then have "i < length ?amts" by simp
    then have "map_of av' (fst (cands ! i)) = Some (snd (snd (cands ! i)) - ?amts ! i)"
      by (rule taken)
    then show "?amts ! i = snd (snd (cands ! i)) \<and> map_of av' (fst (cands ! i)) = Some 0"
      using exh [OF i] by simp
  qed
  have c3: "\<forall>i<length cands. length ?amts \<le> i \<longrightarrow>
          map_of av' (fst (cands ! i)) = Some (snd (snd (cands ! i)))"
  proof (intro allI impI)
    fix i assume ic: "i < length cands" and i: "length ?amts \<le> i"
    have "map_of (zip (map fst cands) ?amts) (map fst cands ! i) = None"
      using dc i ic by (intro map_of_zip_short_None) simp_all
    moreover have "map_of available (fst (cands ! i)) = Some (snd (snd (cands ! i)))"
      using cnt ic by simp
    ultimately show "map_of av' (fst (cands ! i)) = Some (snd (snd (cands ! i)))"
      using final ic by simp
  qed
  have c4: "0 < q - sum_list ?amts \<longrightarrow> ?amts = ?ns"
    using spec_greedy_all [OF pos] by blast
  have c5: "0 \<le> q \<longrightarrow> q - sum_list ?amts = max 0 (q - sum_list ?ns)"
    using spec_greedy_sum [OF _ pos] by blast
  show ?thesis
    using run elen len srt c1 c2 c3 c4 c5 by blast
qed

lemma scenario_rank:
  "euclidean_distance ar (1, 2) (1, 1) < euclidean_distance ar (3, 1) (1, 1) \<Longrightarrow>
   rank_candidates ar scenario_locations (1, 1) [(''B'', 3), (''A'', 5)]
     = [(''A'', euclidean_distance ar (1, 2) (1, 1), 5),
        (''B'', euclidean_distance ar (3, 1) (1, 1), 3)]"
  by (simp add: rank_candidates_def scenario_locations_def not_le [symmetric])

lemma scenario_A:
  "euclidean_distance ar (1, 2) (1, 1) < euclidean_distance ar (3, 1) (1, 1) \<Longrightarrow>
   allocate_fast gw scenario_locations ''Medical'' ''T''
     (rank_candidates ar scenario_locations (1, 1) [(''B'', 3), (''A'', 5)]) 6 [(''B'', 3), (''A'', 5)]
   = Inr (0, [(''B'', 2), (''A'', 0)],
          [Post ''/medical/dispatch'' (scenario_order ''CA'' ''A'' 5)
             (gw ''/medical/dispatch'' (scenario_order ''CA'' ''A'' 5)),
           Post ''/medical/dispatch'' (scenario_order ''CB'' ''B'' 1)
             (gw ''/medical/dispatch'' (scenario_order ''CB'' ''B'' 1))])"
  unfolding scenario_rank
  by (simp add: endpoint_fast_def dispatch_def scenario_locations_def scenario_order_def Let_def)

lemma scenario_B:
  "euclidean_distance ar (1, 2) (1, 1) < euclidean_distance ar (3, 1) (1, 1) \<Longrightarrow>
   allocate_fast gw scenario_locations ''Medical'' ''T''
     (rank_candidates ar scenario_locations (1, 1) [(''B'', 3), (''A'', 5)]) 10 [(''B'', 3), (''A'', 5)]
   = Inr (2, [(''B'', 0), (''A'', 0)],
          [Post ''/medical/dispatch'' (scenario_order ''CA'' ''A'' 5)
             (gw ''/medical/dispatch'' (scenario_order ''CA'' ''A'' 5)),
           Post ''/medical/dispatch'' (scenario_order ''CB'' ''B'' 3)
             (gw ''/medical/dispatch'' (scenario_order ''CB'' ''B'' 3))])"
  unfolding scenario_rank
  by (simp add: endpoint_fast_def dispatch_def scenario_locations_def scenario_order_def Let_def)

lemma exact_near:
  "euclidean_distance exact_arith (1, 2) (1, 1) < euclidean_distance exact_arith (3, 1) (1, 1)"
  by (simp add: euclidean_distance_def exact_arith_def)

lemma scenario_medical_fetch: "get_available scenario_medical = Inr [(''B'', 3), (''A'', 5)]"
  by (simp add: get_available_def scenario_medical_def item_key_def item_count_def str_or_def)

lemma scenario_other_fetch: "get_available scenario_other = Inr [(''A'', 1)]"
  by (simp add: get_available_def scenario_other_def item_key_def item_count_def str_or_def)

lemma scenario_target: "scenario_locations ''T'' = Some \<lparr>county = ''CT'', city = ''T'', latitude = 1, longitude = 1\<rparr>"
  by (simp add: scenario_locations_def)

lemma scenario_call_A:
  "euclidean_distance ar (1, 2) (1, 1) < euclidean_distance ar (3, 1) (1, 1) \<Longrightarrow>
   map_sum id fst (process_multi_service_emergency ar gw
       \<lparr>call_city = Some ''T'', requests = [\<lparr>req_Type = ''Medical'', req_Quantity = 6\<rparr>]\<rparr>
       scenario_locations scenario_medical scenario_other scenario_other) = Inr True"
  by (simp add: process_multi_service_emergency_def scenario_medical_fetch scenario_other_fetch
        scenario_target scenario_A)

lemma scenario_call_B:
  "euclidean_distance ar (1, 2) (1, 1) < euclidean_distance ar (3, 1) (1, 1) \<Longrightarrow>
   map_sum id fst (process_multi_service_emergency ar gw
       \<lparr>call_city = Some ''T'', requests = [\<lparr>req_Type = ''Medical'', req_Quantity = 10\<rparr>]\<rparr>
       scenario_locations scenario_medical scenario_other scenario_other) = Inr False"
  by (simp add: process_multi_service_emergency_def scenario_medical_fetch scenario_other_fetch
        scenario_target scenario_B)

text \<open>
  Claim C3. Run on the ranked candidates of an availability mapping (for a service type
  with a dispatch function and a target in the location index), the greedy walk raises
  nothing and posts one order per candidate it visits, in ranked order, that is in
  ascending computed distance, skipping none. Every order but the last takes the whole count of
  its candidate and leaves that count at 0, so a farther candidate is touched only after
  every nearer one is exhausted; candidates after the last order keep their count; the
  remainder is the quantity minus what was taken, that is the shortfall of the combined
  availability (0 when it suffices), and it is positive only when every candidate was
  emptied. In scenario A (A at (1,2) with 5 units and B at (3,1) with 3, target (1,1),
  quantity 6), in any arithmetic that computes a smaller distance for A than for B, the
  walk takes 5 from A, then 1 from B, ends with remainder 0 and counts A=0, B=2, and the
  call succeeds; in scenario B (quantity 10) it takes 5 and 3, ends with remainder 2, and
  the call does not succeed.
\<close>

theorem greedy_exhausts_nearer_first:
  "(endpoint_fast st = Some ep \<and> ld target = Some tgt \<and> distinct (map fst available) \<and>
    cands = rank_candidates ar ld (latitude tgt, longitude tgt) available \<longrightarrow>
     (\<exists>r' av' evs amts.
       allocate_fast gw ld st target cands q available = Inr (r', av', evs) \<and>
       length evs = length amts \<and> length amts \<le> length cands \<and>
       sorted (map (\<lambda>cand. fst (snd cand)) cands) \<and>
       (\<forall>i<length amts.
          (\<exists>src p. ld (fst (cands ! i)) = Some src \<and> evs ! i = Post ep p (gw ep p) \<and>
                   sourceCity p = city src \<and> targetCity p = city tgt \<and>
                   quantity p = amts ! i) \<and>
          0 < amts ! i \<and> amts ! i \<le> snd (snd (cands ! i)) \<and>
          map_of av' (fst (cands ! i)) = Some (snd (snd (cands ! i)) - amts ! i)) \<and>
       (\<forall>i. Suc i < length amts \<longrightarrow>
          amts ! i = snd (snd (cands ! i)) \<and> map_of av' (fst (cands ! i)) = Some 0) \<and>
       (\<forall>i<length cands. length amts \<le> i \<longrightarrow>
          map_of av' (fst (cands ! i)) = Some (snd (snd (cands ! i)))) \<and>
       r' = q - sum_list amts \<and>
       (0 \<le> q \<longrightarrow> r' = max 0 (q - sum_list (map (\<lambda>cand. snd (snd cand)) cands))) \<and>
       (0 < r' \<longrightarrow> amts = map (\<lambda>cand. snd (snd cand)) cands)))
   \<and> (euclidean_distance sar (1, 2) (1, 1) < euclidean_distance sar (3, 1) (1, 1) \<longrightarrow>
       allocate_fast gw scenario_locations ''Medical'' ''T''
         (rank_candidates sar scenario_locations (1, 1) [(''B'', 3), (''A'', 5)]) 6
         [(''B'', 3), (''A'', 5)]
       = Inr (0, [(''B'', 2), (''A'', 0)],
            [Post ''/medical/dispatch'' (scenario_order ''CA'' ''A'' 5)
               (gw ''/medical/dispatch'' (scenario_order ''CA'' ''A'' 5)),
             Post ''/medical/dispatch'' (scenario_order ''CB'' ''B'' 1)
               (gw ''/medical/dispatch'' (scenario_order ''CB'' ''B'' 1))])
     \<and> allocate_fast gw scenario_locations ''Medical'' ''T''
         (rank_candidates sar scenario_locations (1, 1) [(''B'', 3), (''A'', 5)]) 10
         [(''B'', 3), (''A'', 5)]
       = Inr (2, [(''B'', 0), (''A'', 0)],
            [Post ''/medical/dispatch'' (scenario_order ''CA'' ''A'' 5)
               (gw ''/medical/dispatch'' (scenario_order ''CA'' ''A'' 5)),
             Post ''/medical/dispatch'' (scenario_order ''CB'' ''B'' 3)
               (gw ''/medical/dispatch'' (scenario_order ''CB'' ''B'' 3))])
     \<and> map_sum id fst (process_multi_service_emergency sar gw
         \<lparr>call_city = Some ''T'', requests = [\<lparr>req_Type = ''Medical'', req_Quantity = 6\<rparr>]\<rparr>
         scenario_locations scenario_medical scenario_other scenario_other) = Inr True
     \<and> map_sum id fst (process_multi_service_emergency sar gw
         \<lparr>call_city = Some ''T'', requests = [\<lparr>req_Type = ''Medical'', req_Quantity = 10\<rparr>]\<rparr>
         scenario_locations scenario_medical scenario_other scenario_other) = Inr False)"
proof (intro conjI impI)
  assume "endpoint_fast st = Some ep \<and> ld target = Some tgt \<and> distinct (map fst available) \<and>
    cands = rank_candidates ar ld (latitude tgt, longitude tgt) available"
  then show "\<exists>r' av' evs amts.
       allocate_fast gw ld st target cands q available = Inr (r', av', evs) \<and>
       length evs = length amts \<and> length amts \<le> length cands \<and>
       sorted (map (\<lambda>cand. fst (snd cand)) cands) \<and>
       (\<forall>i<length amts.
          (\<exists>src p. ld (fst (cands ! i)) = Some src \<and> evs ! i = Post ep p (gw ep p) \<and>
                   sourceCity p = city src \<and> targetCity p = city tgt \<and>
                   quantity p = amts ! i) \<and>
          0 < amts ! i \<and> amts ! i \<le> snd (snd (cands ! i)) \<and>
          map_of av' (fst (cands ! i)) = Some (snd (snd (cands ! i)) - amts ! i)) \<and>
       (\<forall>i. Suc i < length amts \<longrightarrow>
          amts ! i = snd (snd (cands ! i)) \<and> map_of av' (fst (cands ! i)) = Some 0) \<and>
       (\<forall>i<length cands. length amts \<le> i \<longrightarrow>
          map_of av' (fst (cands ! i)) = Some (snd (snd (cands ! i)))) \<and>
       r' = q - sum_list amts \<and>
       (0 \<le> q \<longrightarrow> r' = max 0 (q - sum_list (map (\<lambda>cand. snd (snd cand)) cands))) \<and>
       (0 < r' \<longrightarrow> amts = map (\<lambda>cand. snd (snd cand)) cands)"
    by (intro allocate_fast_ranked) simp_all
qed (simp_all only: scenario_A scenario_B scenario_call_A scenario_call_B)

theorem greedy_exhausts_nearer_first_witness:
  "(\<exists>r' av' evs amts.
     allocate_fast (\<lambda>e p. True) scenario_locations ''Medical'' ''T''
       (rank_candidates exact_arith scenario_locations (1, 1) [(''B'', 3), (''A'', 5)]) 6
       [(''B'', 3), (''A'', 5)] = Inr (r', av', evs) \<and>
     length evs = length amts \<and>
     (\<forall>i. Suc i < length amts \<longrightarrow>
        map_of av' (fst (rank_candidates exact_arith scenario_locations (1, 1) [(''B'', 3), (''A'', 5)] ! i))
          = Some 0) \<and>
     r' = 6 - sum_list amts)
   \<and> allocate_fast (\<lambda>e p. True) scenario_locations ''Medical'' ''T''
       (rank_candidates exact_arith scenario_locations (1, 1) [(''B'', 3), (''A'', 5)]) 10
       [(''B'', 3), (''A'', 5)]
     = Inr (2, [(''B'', 0), (''A'', 0)],
          [Post ''/medical/dispatch'' (scenario_order ''CA'' ''A'' 5) True,
           Post ''/medical/dispatch'' (scenario_order ''CB'' ''B'' 3) True])"
proof -
  have h: "endpoint_fast ''Medical'' = Some ''/medical/dispatch'' \<and>
     scenario_locations ''T'' = Some \<lparr>county = ''CT'', city = ''T'', latitude = 1, longitude = 1\<rparr> \<and>
     distinct (map fst [(''B'', 3::int), (''A'', 5)]) \<and>
     rank_candidates exact_arith scenario_locations (1, 1) [(''B'', 3), (''A'', 5)] =
       rank_candidates exact_arith scenario_locations
         (latitude \<lparr>county = ''CT'', city = ''T'', latitude = 1, longitude = 1\<rparr>,
          longitude \<lparr>county = ''CT'', city = ''T'', latitude = 1, longitude = 1\<rparr>)
         [(''B'', 3), (''A'', 5)]"
    by (simp add: endpoint_fast_def scenario_target)
  note g = greedy_exhausts_nearer_first
         [of "''Medical''" "''/medical/dispatch''" scenario_locations "''T''"
             "\<lparr>county = ''CT'', city = ''T'', latitude = 1, longitude = 1\<rparr>"
             "[(''B'', 3), (''A'', 5)]"
             "rank_candidates exact_arith scenario_locations (1, 1) [(''B'', 3), (''A'', 5)]"
             exact_arith "\<lambda>e p. True" 6,
          THEN conjunct1, THEN mp, OF h]
  from g have 1: "\<exists>r' av' evs amts.
     allocate_fast (\<lambda>e p. True) scenario_locations ''Medical'' ''T''
       (rank_candidates exact_arith scenario_locations (1, 1) [(''B'', 3), (''A'', 5)]) 6
       [(''B'', 3), (''A'', 5)] = Inr (r', av', evs) \<and>
     length evs = length amts \<and>
     (\<forall>i. Suc i < length amts \<longrightarrow>
        map_of av' (fst (rank_candidates exact_arith scenario_locations (1, 1) [(''B'', 3), (''A'', 5)] ! i))
          = Some 0) \<and>
     r' = 6 - sum_list amts"
    by blast
  note 2 = greedy_exhausts_nearer_first
         [where sar = exact_arith and gw = "\<lambda>e p. True",
          THEN conjunct2, THEN mp, OF exact_near, THEN conjunct2, THEN conjunct1]
  from 1 2 show ?thesis by (intro conjI)
qed

subsection \<open>The call processor of \<^verbatim>\<open>aioHttp3.py\<close>\<close>

lemma try_take_bounds:
  assumes "try_take ch st c r = (dc, ch', w)" and "0 < r"
  shows "dom ch' = dom ch \<and> 0 \<le> dc \<and> dc \<le> r"
  using assms
  by (auto simp: try_take_def Let_def split: option.splits if_splits)

lemma allocate_shared_bounds:
  "allocate_shared gw ld st t cands r ch = (r', ch', evs) \<Longrightarrow>
     dom ch' = dom ch \<and> r' \<le> r \<and> (0 \<le> r \<longrightarrow> 0 \<le> r')"
proof (induction cands arbitrary: r ch r' ch' evs)
  case Nil
  then show ?case by simp
next
  case (Cons cand cands)
  obtain c d where cand: "cand = (c, d)" by (cases cand)
  show ?case
  proof (cases "r \<le> 0")
    case True
    with Cons.prems show ?thesis by (simp add: cand)
  next
    case False
    obtain dc ch1 w where tt: "try_take ch st c r = (dc, ch1, w)" by (cases "try_take ch st c r")
    from tt False have b: "dom ch1 = dom ch \<and> 0 \<le> dc \<and> dc \<le> r"
      by (intro try_take_bounds) simp_all
    show ?thesis
    proof (cases "dc > 0 \<and> endpoint_of st \<noteq> None")
      case True
      then obtain ep where ep: "endpoint_of st = Some ep" by auto
      obtain r2 ch2 evs2 where rec: "allocate_shared gw ld st t cands (r - dc) ch1 = (r2, ch2, evs2)"
        by (cases "allocate_shared gw ld st t cands (r - dc) ch1")
      from Cons.IH [OF rec] have "dom ch2 = dom ch1 \<and> r2 \<le> r - dc \<and> (0 \<le> r - dc \<longrightarrow> 0 \<le> r2)" .
      moreover have "r' = r2 \<and> ch' = ch2"
        using Cons.prems False tt True ep rec by (simp add: cand)
      ultimately show ?thesis using b by auto
    next
      case F2: False
      obtain r2 ch2 evs2 where rec: "allocate_shared gw ld st t cands r ch1 = (r2, ch2, evs2)"
        by (cases "allocate_shared gw ld st t cands r ch1")
      from Cons.IH [OF rec] have "dom ch2 = dom ch1 \<and> r2 \<le> r \<and> (0 \<le> r \<longrightarrow> 0 \<le> r2)" .
      moreover have "r' = r2 \<and> ch' = ch2"
        using Cons.prems False tt F2 rec by (auto simp: cand split: option.splits)
      ultimately show ?thesis using b by auto
    qed
  qed
qed

lemma process_requests_shared_spec:
  "process_requests_shared ar gw ld t tc reqs ok ch = (ok', ch', evs, outs) \<Longrightarrow>
     dom ch' = dom ch \<and>
     (ok' \<longleftrightarrow> ok \<and> (\<forall>r. Allocated r \<in> set outs \<longrightarrow> r = 0)) \<and>
     (\<forall>r. Allocated r \<in> set outs \<longrightarrow> 0 \<le> r) \<and>
     map (\<lambda>out. case out of Skipped q \<Rightarrow> True | Allocated r \<Rightarrow> False) outs
       = map (\<lambda>req. req_Quantity req \<le> 0 \<or> ch (req_Type req) = None) reqs \<and>
     (\<forall>i<length outs. \<forall>q. outs ! i = Skipped q \<longrightarrow> q = req_Quantity (reqs ! i))"
proof (induction reqs arbitrary: ok ch ok' ch' evs outs)
  case Nil
  then show ?case by auto
next
  case (Cons req reqs)
  show ?case
  proof (cases "req_Quantity req \<le> 0 \<or> ch (req_Type req) = None")
    case True
    obtain ok2 ch2 evs2 outs2 where
      rec: "process_requests_shared ar gw ld t tc reqs ok ch = (ok2, ch2, evs2, outs2)"
      by (cases "process_requests_shared ar gw ld t tc reqs ok ch")
    have res: "ok' = ok2 \<and> ch' = ch2 \<and> outs = Skipped (req_Quantity req) # outs2"
      using Cons.prems True rec by (auto split: option.splits)
    note ih = Cons.IH [OF rec]
    have nth: "\<forall>i<length outs. \<forall>q. outs ! i = Skipped q \<longrightarrow> q = req_Quantity ((req # reqs) ! i)"
    proof (intro allI impI)
      fix i q assume "i < length outs" "outs ! i = Skipped q"
      then show "q = req_Quantity ((req # reqs) ! i)"
        using ih res by (cases i) auto
    qed
    show ?thesis using ih res True nth by auto
  next
    case False
    then obtain available where av: "ch (req_Type req) = Some available" by auto
    obtain rem ch1 evs1 where
      al: "allocate_shared gw ld (req_Type req) t
             (sort_key snd (build_candidates_shared ar ld tc available)) (req_Quantity req) ch
           = (rem, ch1, evs1)"
      by (cases "allocate_shared gw ld (req_Type req) t
             (sort_key snd (build_candidates_shared ar ld tc available)) (req_Quantity req) ch")
    obtain ok2 ch2 evs2 outs2 where
      rec: "process_requests_shared ar gw ld t tc reqs (if rem > 0 then False else ok) ch1
              = (ok2, ch2, evs2, outs2)"
      by (cases "process_requests_shared ar gw ld t tc reqs (if rem > 0 then False else ok) ch1")
    have res: "ok' = ok2 \<and> ch' = ch2 \<and> outs = Allocated rem # outs2"
      using Cons.prems False av al rec by simp
    from allocate_shared_bounds [OF al] False
    have b: "dom ch1 = dom ch \<and> 0 \<le> rem" by simp
    then have same: "\<And>k. (ch1 k = None) = (ch k = None)" by (metis domIff)
    note ih = Cons.IH [OF rec]
    have nth: "\<forall>i<length outs. \<forall>q. outs ! i = Skipped q \<longrightarrow> q = req_Quantity ((req # reqs) ! i)"
    proof (intro allI impI)
      fix i q assume "i < length outs" "outs ! i = Skipped q"
      then show "q = req_Quantity ((req # reqs) ! i)"
        using ih res by (cases i) auto
    qed
    have okeq: "ok' \<longleftrightarrow> ok \<and> (\<forall>r. Allocated r \<in> set outs \<longrightarrow> r = 0)"
      using ih res b by auto
    have nonneg: "\<forall>r. Allocated r \<in> set outs \<longrightarrow> 0 \<le> r"
      using ih res b by auto
    have skips: "map (\<lambda>out. case out of Skipped q \<Rightarrow> True | Allocated r \<Rightarrow> False) outs
       = map (\<lambda>req. req_Quantity req \<le> 0 \<or> ch (req_Type req) = None) (req # reqs)"
      using ih res False same by simp
    have "dom ch' = dom ch" using ih res b by simp
    then show ?thesis using okeq nonneg skips nth by blast
  qed
qed

text \<open>
  Claim C5, as amended. \<^verbatim>\<open>process_multi_service_emergency_shared\<close> returns
  \<^verbatim>\<open>True\<close> exactly when the target city is present, non-empty and in the location
  index, the request list is not empty, and every request that was run through the
  allocator ended with \<^verbatim>\<open>remaining\<close> equal to 0 (it is never negative). The requests that
  are not run are exactly those with a non-positive quantity or with a service type the
  cache does not have; they are skipped and do not count against the call.
\<close>

theorem call_success_iff:
  "process_multi_service_emergency_shared ar gw call ld ch = (ok, ch', evs, outs) \<longrightarrow>
     (ok \<longleftrightarrow> (\<exists>tc. call_city call = Some tc \<and> tc \<noteq> [] \<and> ld tc \<noteq> None) \<and>
             requests call \<noteq> [] \<and> (\<forall>r. Allocated r \<in> set outs \<longrightarrow> r = 0)) \<and>
     (\<forall>r. Allocated r \<in> set outs \<longrightarrow> 0 \<le> r) \<and>
     ((\<exists>tc. call_city call = Some tc \<and> tc \<noteq> [] \<and> ld tc \<noteq> None) \<and> requests call \<noteq> [] \<longrightarrow>
        map (\<lambda>out. case out of Skipped q \<Rightarrow> True | Allocated r \<Rightarrow> False) outs
          = map (\<lambda>req. req_Quantity req \<le> 0 \<or> ch (req_Type req) = None) (requests call))"
proof
  assume run: "process_multi_service_emergency_shared ar gw call ld ch = (ok, ch', evs, outs)"
  show "(ok \<longleftrightarrow> (\<exists>tc. call_city call = Some tc \<and> tc \<noteq> [] \<and> ld tc \<noteq> None) \<and>
             requests call \<noteq> [] \<and> (\<forall>r. Allocated r \<in> set outs \<longrightarrow> r = 0)) \<and>
     (\<forall>r. Allocated r \<in> set outs \<longrightarrow> 0 \<le> r) \<and>
     ((\<exists>tc. call_city call = Some tc \<and> tc \<noteq> [] \<and> ld tc \<noteq> None) \<and> requests call \<noteq> [] \<longrightarrow>
        map (\<lambda>out. case out of Skipped q \<Rightarrow> True | Allocated r \<Rightarrow> False) outs
          = map (\<lambda>req. req_Quantity req \<le> 0 \<or> ch (req_Type req) = None) (requests call))"
  proof (cases "(\<exists>tc. call_city call = Some tc \<and> tc \<noteq> [] \<and> ld tc \<noteq> None) \<and> requests call \<noteq> []")
    case False
    then have "ok = False \<and> outs = []"
      using run
      by (auto simp: process_multi_service_emergency_shared_def split: option.splits if_splits)
    then show ?thesis using False by auto
  next
    case True
    then obtain tc tgt where tc: "call_city call = Some tc" "tc \<noteq> []" "ld tc = Some tgt"
      and ne: "requests call \<noteq> []" by auto
    have "process_requests_shared ar gw ld tc (latitude tgt, longitude tgt) (requests call) True ch
            = (ok, ch', evs, outs)"
      using run tc ne by (simp add: process_multi_service_emergency_shared_def)
    from process_requests_shared_spec [OF this] show ?thesis using True by simp
  qed
qed

text \<open>
  The unamended statement fails in both directions: a call with an empty request list
  has no request with a non-zero remainder and is reported unsuccessful, and a call whose
  only request names a service type the cache does not have is reported successful with
  all 3 requested units undispatched.
\<close>

theorem call_success_iff_counterexample:
  "process_multi_service_emergency_shared exact_arith (\<lambda>e p. True) empty_call scenario_locations scenario_cache
     = (False, scenario_cache, [], [])
   \<and> \<not> (False \<longleftrightarrow> list_all (\<lambda>out. remaining_of out = 0) [])
   \<and> process_multi_service_emergency_shared exact_arith (\<lambda>e p. True) hazmat_call scenario_locations scenario_cache
     = (True, scenario_cache, [], [Skipped 3])
   \<and> \<not> (True \<longleftrightarrow> list_all (\<lambda>out. remaining_of out = 0) [Skipped 3])"
  by (simp add: process_multi_service_emergency_shared_def empty_call_def hazmat_call_def
        scenario_locations_def scenario_cache_def)

lemma mixed_call_run:
  "process_multi_service_emergency_shared exact_arith (\<lambda>e p. True) mixed_call scenario_locations scenario_cache
     = (True, [''Medical'' \<mapsto> [(''B'', 2), (''A'', 0)]],
        [CacheWrite ''Medical'' ''A'' 0,
         Post ''/medical/dispatch'' (scenario_order ''CA'' ''A'' 5) True,
         CacheWrite ''Medical'' ''B'' 2,
         Post ''/medical/dispatch'' (scenario_order ''CB'' ''B'' 1) True],
        [Allocated 0, Skipped 2, Skipped 0])"
  by (simp add: process_multi_service_emergency_shared_def mixed_call_def scenario_cache_def
        scenario_locations_def euclidean_distance_def exact_arith_def try_take_def endpoint_of_def dispatch_def
        scenario_order_def Let_def)

theorem call_success_iff_witness:
  "process_multi_service_emergency_shared exact_arith (\<lambda>e p. True) mixed_call scenario_locations scenario_cache
     = (True, [''Medical'' \<mapsto> [(''B'', 2), (''A'', 0)]],
        [CacheWrite ''Medical'' ''A'' 0,
         Post ''/medical/dispatch'' (scenario_order ''CA'' ''A'' 5) True,
         CacheWrite ''Medical'' ''B'' 2,
         Post ''/medical/dispatch'' (scenario_order ''CB'' ''B'' 1) True],
        [Allocated 0, Skipped 2, Skipped 0])
   \<and> (True \<longleftrightarrow> (\<exists>tc. call_city mixed_call = Some tc \<and> tc \<noteq> [] \<and> scenario_locations tc \<noteq> None) \<and>
             requests mixed_call \<noteq> [] \<and>
             (\<forall>r. Allocated r \<in> set [Allocated 0, Skipped 2, Skipped 0] \<longrightarrow> r = 0))"
  using call_success_iff [THEN mp, OF mixed_call_run] mixed_call_run by blast

subsection \<open>A target outside the location index\<close>

lemma absent_target_shared:
  "(\<forall>tc. call_city call = Some tc \<longrightarrow> ld tc = None) \<Longrightarrow>
   process_multi_service_emergency_shared ar gw call ld ch = (False, ch, [], [])"
  by (auto simp: process_multi_service_emergency_shared_def split: option.splits)

lemma process_requests_fast_absent_target:
  "ld t = None \<Longrightarrow> process_requests_fast ar gw ld t reqs ok res = Inr (ok, res, [])"
  by (induction reqs) auto

text \<open>
  Claim C6 at a failing input. For a call to ``Atlantis'', which the location index does
  not have, with one Medical request for 2 units, \<^verbatim>\<open>process_multi_service_emergency\<close>
  of \<^verbatim>\<open>fast_simulation.py\<close> fetches the three availabilities, skips the request at
  lines 198-200 and returns \<^verbatim>\<open>True\<close>: nothing is dispatched and nothing is decremented,
  but the call is reported successful. \<^verbatim>\<open>aioHttp3.py\<close> returns \<^verbatim>\<open>False\<close> for the
  same call before looking at its requests.
\<close>

theorem fast_simulation_absent_target_succeeds:
  "process_multi_service_emergency exact_arith (\<lambda>e p. True) atlantis_call scenario_locations
     scenario_medical scenario_other scenario_other
   = Inr (True, [''Medical'' \<mapsto> [(''B'', 3), (''A'', 5)], ''Fire'' \<mapsto> [(''A'', 1)],
                 ''Police'' \<mapsto> [(''A'', 1)]], [])
   \<and> process_multi_service_emergency_shared exact_arith (\<lambda>e p. True) atlantis_call scenario_locations
       scenario_cache
     = (False, scenario_cache, [], [])"
proof -
  have n: "scenario_locations ''Atlantis'' = None" by (simp add: scenario_locations_def)
  have m: "get_available scenario_medical = Inr [(''B'', 3), (''A'', 5)]"
    by (simp add: get_available_def scenario_medical_def item_key_def item_count_def str_or_def)
  have  o: "get_available scenario_other = Inr [(''A'', 1)]"
    by (simp add: get_available_def scenario_other_def item_key_def item_count_def str_or_def)
  show ?thesis
    by (simp add: process_multi_service_emergency_def atlantis_call_def m o
          process_requests_fast_absent_target absent_target_shared n)
qed

subsection \<open>Requests with a non-positive quantity\<close>

lemma process_requests_fast_skip:
  "req_Quantity req \<le> 0 \<Longrightarrow>
   process_requests_fast ar gw ld t (xs @ req # ys) ok res
     = process_requests_fast ar gw ld t (xs @ ys) ok res"
proof (induction xs arbitrary: ok res)
  case Nil
  then show ?case by simp
next
  case (Cons x xs)
  then show ?case
    by (simp split: option.splits sum.splits prod.splits)
qed

text \<open>
  Claim C8, as amended. In \<^verbatim>\<open>fast_simulation.py\<close> a request with a non-positive quantity
  is skipped: the loop over the requests gives the same result, the same counts and the
  same orders as without it, wherever in the list it stands; so does the whole call as
  long as another request is left, and a call made of one such request alone is
  reported successful with nothing dispatched. In \<^verbatim>\<open>main.py\<close>, which adds the quantities
  of a call up, a non-positive total makes \<^verbatim>\<open>process_emergency\<close> return \<^verbatim>\<open>False\<close>,
  again with no order sent and no count changed.
\<close>

theorem nonpositive_request_skipped:
  "(req_Quantity req \<le> 0 \<longrightarrow>
      process_requests_fast ar gw ld t (xs @ req # ys) ok res
        = process_requests_fast ar gw ld t (xs @ ys) ok res)
   \<and> (req_Quantity req \<le> 0 \<and> xs @ ys \<noteq> [] \<longrightarrow>
      process_multi_service_emergency ar gw (call\<lparr>requests := xs @ req # ys\<rparr>) ld med fire police
        = process_multi_service_emergency ar gw (call\<lparr>requests := xs @ ys\<rparr>) ld med fire police)
   \<and> (req_Quantity req \<le> 0 \<and> call_city call = Some t \<and> t \<noteq> [] \<and>
       get_available med = Inr m \<and> get_available fire = Inr f \<and> get_available police = Inr p \<longrightarrow>
      process_multi_service_emergency ar gw (call\<lparr>requests := [req]\<rparr>) ld med fire police
        = Inr (True, [''Medical'' \<mapsto> m, ''Fire'' \<mapsto> f, ''Police'' \<mapsto> p], []))
   \<and> (amb_needed acall = None \<and> amb_required acall = None \<and> amb_count acall = None \<and>
       amb_requests acall = Some reqs \<and> sum_list (map req_Quantity reqs) \<le> 0 \<longrightarrow>
      process_emergency ar gw acall ld available = Inr (False, available, []))"
proof (intro conjI impI)
  assume "req_Quantity req \<le> 0"
  then show "process_requests_fast ar gw ld t (xs @ req # ys) ok res
        = process_requests_fast ar gw ld t (xs @ ys) ok res"
    by (rule process_requests_fast_skip)
next
  assume a: "req_Quantity req \<le> 0 \<and> xs @ ys \<noteq> []"
  then have "\<And>t ok res. process_requests_fast ar gw ld t (xs @ req # ys) ok res
        = process_requests_fast ar gw ld t (xs @ ys) ok res"
    by (simp add: process_requests_fast_skip)
  then show "process_multi_service_emergency ar gw (call\<lparr>requests := xs @ req # ys\<rparr>) ld med fire police
        = process_multi_service_emergency ar gw (call\<lparr>requests := xs @ ys\<rparr>) ld med fire police"
    using a by (auto simp: process_multi_service_emergency_def split: option.splits sum.splits)
next
  assume "req_Quantity req \<le> 0 \<and> call_city call = Some t \<and> t \<noteq> [] \<and>
       get_available med = Inr m \<and> get_available fire = Inr f \<and> get_available police = Inr p"
  then show "process_multi_service_emergency ar gw (call\<lparr>requests := [req]\<rparr>) ld med fire police
        = Inr (True, [''Medical'' \<mapsto> m, ''Fire'' \<mapsto> f, ''Police'' \<mapsto> p], [])"
    by (simp add: process_multi_service_emergency_def)
next
  assume "amb_needed acall = None \<and> amb_required acall = None \<and> amb_count acall = None \<and>
       amb_requests acall = Some reqs \<and> sum_list (map req_Quantity reqs) \<le> 0"
  then show "process_emergency ar gw acall ld available = Inr (False, available, [])"
    by (auto simp: process_emergency_def int_or_def split: option.splits)
qed

text \<open>
  The unamended statement fails on \<^verbatim>\<open>main.py\<close>: a call whose only entry has quantity 0
  is rejected, and an entry of -2 next to an entry of 5 lowers the dispatch from 5 units
  to 3.
\<close>

theorem nonpositive_request_main_counterexample:
  "process_emergency exact_arith (\<lambda>e p. True) zero_ambulance_call scenario_locations [(''A'', 5)]
     = Inr (False, [(''A'', 5)], [])
   \<and> process_emergency exact_arith (\<lambda>e p. True) negative_ambulance_call scenario_locations [(''A'', 5)]
     = Inr (True, [(''A'', 2)], [Post ''/medical/dispatch'' (scenario_order ''CA'' ''A'' 3) True])
   \<and> process_emergency exact_arith (\<lambda>e p. True) positive_ambulance_call scenario_locations [(''A'', 5)]
     = Inr (True, [(''A'', 0)], [Post ''/medical/dispatch'' (scenario_order ''CA'' ''A'' 5) True])"
  by (simp add: process_emergency_def zero_ambulance_call_def negative_ambulance_call_def
        positive_ambulance_call_def int_or_def scenario_locations_def rank_candidates_def
        euclidean_distance_def exact_arith_def dispatch_def scenario_order_def Let_def)

theorem nonpositive_request_skipped_witness:
  "process_requests_fast exact_arith (\<lambda>e p. True) scenario_locations ''T''
      ([\<lparr>req_Type = ''Medical'', req_Quantity = 6\<rparr>] @
        \<lparr>req_Type = ''Medical'', req_Quantity = - 1\<rparr> # [\<lparr>req_Type = ''Fire'', req_Quantity = 1\<rparr>])
      True [''Medical'' \<mapsto> [(''B'', 3), (''A'', 5)], ''Fire'' \<mapsto> [(''A'', 1)]]
   = process_requests_fast exact_arith (\<lambda>e p. True) scenario_locations ''T''
      ([\<lparr>req_Type = ''Medical'', req_Quantity = 6\<rparr>] @ [\<lparr>req_Type = ''Fire'', req_Quantity = 1\<rparr>])
      True [''Medical'' \<mapsto> [(''B'', 3), (''A'', 5)], ''Fire'' \<mapsto> [(''A'', 1)]]
   \<and> process_emergency exact_arith (\<lambda>e p. True) zero_ambulance_call scenario_locations [(''A'', 5)]
     = Inr (False, [(''A'', 5)], [])"
proof -
  have h1: "req_Quantity \<lparr>req_Type = ''Medical'', req_Quantity = - 1\<rparr> \<le> 0" by simp
  have h2: "amb_needed zero_ambulance_call = None \<and> amb_required zero_ambulance_call = None \<and>
       amb_count zero_ambulance_call = None \<and>
       amb_requests zero_ambulance_call = Some [\<lparr>req_Type = ''Medical'', req_Quantity = 0\<rparr>] \<and>
       sum_list (map req_Quantity [\<lparr>req_Type = ''Medical'', req_Quantity = 0\<rparr>]) \<le> 0"
    by (simp add: zero_ambulance_call_def)
  note t = nonpositive_request_skipped
     [of "\<lparr>req_Type = ''Medical'', req_Quantity = - 1\<rparr>" exact_arith "\<lambda>e p. True"
         scenario_locations "''T''"
         "[\<lparr>req_Type = ''Medical'', req_Quantity = 6\<rparr>]" "[\<lparr>req_Type = ''Fire'', req_Quantity = 1\<rparr>]"
         True "[''Medical'' \<mapsto> [(''B'', 3), (''A'', 5)], ''Fire'' \<mapsto> [(''A'', 1)]]"
         _ _ _ _ _ _ _ zero_ambulance_call "[\<lparr>req_Type = ''Medical'', req_Quantity = 0\<rparr>]"
         "[(''A'', 5)]"]
  from t h1 h2 show ?thesis by blast
qed

subsection \<open>The cache refresh\<close>

lemma get_available_empty:
  "data = ApiNone \<or> data = ApiText [] \<or> data = ApiList [] \<Longrightarrow>
     get_available data = Inl RuntimeError"
  by (auto simp: get_available_def)

text \<open>
  Claim C9, as amended. On an absent or empty response \<^verbatim>\<open>get_available\<close> raises
  \<^verbatim>\<open>RuntimeError\<close>; the refresh cycle of \<^verbatim>\<open>aioHttp3.py\<close> catches it, whichever of the
  five services it came from, and leaves the whole cache as it was, so a call processed
  afterwards sees exactly the candidates it would have seen before the cycle.
\<close>

theorem empty_response_keeps_cache:
  "data = ApiNone \<or> data = ApiText [] \<or> data = ApiList [] \<longrightarrow>
     get_available data = Inl RuntimeError \<and>
     update_availability_cache ch data d2 d3 d4 d5 = ch \<and>
     update_availability_cache ch d1 data d3 d4 d5 = ch \<and>
     update_availability_cache ch d1 d2 data d4 d5 = ch \<and>
     update_availability_cache ch d1 d2 d3 data d5 = ch \<and>
     update_availability_cache ch d1 d2 d3 d4 data = ch \<and>
     process_multi_service_emergency_shared ar gw call ld
         (update_availability_cache ch data d2 d3 d4 d5)
       = process_multi_service_emergency_shared ar gw call ld ch"
proof
  assume "data = ApiNone \<or> data = ApiText [] \<or> data = ApiList []"
  then have e: "get_available data = Inl RuntimeError" by (rule get_available_empty)
  then show "get_available data = Inl RuntimeError \<and>
     update_availability_cache ch data d2 d3 d4 d5 = ch \<and>
     update_availability_cache ch d1 data d3 d4 d5 = ch \<and>
     update_availability_cache ch d1 d2 data d4 d5 = ch \<and>
     update_availability_cache ch d1 d2 d3 data d5 = ch \<and>
     update_availability_cache ch d1 d2 d3 d4 data = ch \<and>
     process_multi_service_emergency_shared ar gw call ld
         (update_availability_cache ch data d2 d3 d4 d5)
       = process_multi_service_emergency_shared ar gw call ld ch"
    by (simp add: update_availability_cache_def split: sum.splits)
qed

text \<open>
  The unamended statement fails: the fetch does raise, and after a cycle whose Medical
  response was empty the allocator still finds the Medical candidates of the previous
  cycle and dispatches all 6 units asked for.
\<close>

theorem empty_response_counterexample:
  "get_available ApiNone = Inl RuntimeError
   \<and> get_available (ApiList []) = Inl RuntimeError
   \<and> update_availability_cache scenario_cache (ApiList []) scenario_other scenario_other
        scenario_other scenario_other = scenario_cache
   \<and> process_multi_service_emergency_shared exact_arith (\<lambda>e p. True) medical_call scenario_locations
        (update_availability_cache scenario_cache (ApiList []) scenario_other scenario_other
           scenario_other scenario_other)
     = (True, [''Medical'' \<mapsto> [(''B'', 2), (''A'', 0)]],
        [CacheWrite ''Medical'' ''A'' 0,
         Post ''/medical/dispatch'' (scenario_order ''CA'' ''A'' 5) True,
         CacheWrite ''Medical'' ''B'' 2,
         Post ''/medical/dispatch'' (scenario_order ''CB'' ''B'' 1) True],
        [Allocated 0])"
proof -
  have g: "get_available (ApiList []) = Inl RuntimeError" by (simp add: get_available_def)
  have u: "update_availability_cache scenario_cache (ApiList []) scenario_other scenario_other
        scenario_other scenario_other = scenario_cache"
    by (simp add: update_availability_cache_def g)
  have p: "process_multi_service_emergency_shared exact_arith (\<lambda>e p. True) medical_call scenario_locations
        scenario_cache
     = (True, [''Medical'' \<mapsto> [(''B'', 2), (''A'', 0)]],
        [CacheWrite ''Medical'' ''A'' 0,
         Post ''/medical/dispatch'' (scenario_order ''CA'' ''A'' 5) True,
         CacheWrite ''Medical'' ''B'' 2,
         Post ''/medical/dispatch'' (scenario_order ''CB'' ''B'' 1) True],
        [Allocated 0])"
    by (simp add: process_multi_service_emergency_shared_def medical_call_def scenario_cache_def
        scenario_locations_def euclidean_distance_def exact_arith_def try_take_def endpoint_of_def dispatch_def
        scenario_order_def Let_def)
  show ?thesis unfolding u using g p by (simp add: get_available_def)
qed

theorem empty_response_keeps_cache_witness:
  "get_available (ApiList []) = Inl RuntimeError \<and>
   update_availability_cache scenario_cache scenario_medical (ApiList []) scenario_other
     scenario_other scenario_other = scenario_cache"
  using empty_response_keeps_cache
          [of "ApiList []" scenario_cache _ _ _ _ scenario_medical]
  by blast

text \<open>The cycle as a function of the cache at the start of its locked block.\<close>

lemma refresh_cycle_result:
  "((\<exists>e. get_available med = Inl e) \<or> (\<exists>e. get_available fire = Inl e) \<or>
    (\<exists>e. get_available police = Inl e) \<or> (\<exists>e. get_available rescue = Inl e) \<or>
    (\<exists>e. get_available utility = Inl e) \<longrightarrow>
      update_availability_cache ch med fire police rescue utility = ch)
   \<and> (get_available med = Inr m \<and> get_available fire = Inr f \<and> get_available police = Inr p \<and>
       get_available rescue = Inr r \<and> get_available utility = Inr u \<longrightarrow>
      update_availability_cache ch med fire police rescue utility ''Medical'' = Some m \<and>
      update_availability_cache ch med fire police rescue utility ''Fire'' = Some f \<and>
      update_availability_cache ch med fire police rescue utility ''Police'' = Some p \<and>
      update_availability_cache ch med fire police rescue utility ''Rescue'' = Some r \<and>
      update_availability_cache ch med fire police rescue utility ''Utility'' = Some u \<and>
      (\<forall>k. k \<notin> {''Medical'', ''Fire'', ''Police'', ''Rescue'', ''Utility''} \<longrightarrow>
           update_availability_cache ch med fire police rescue utility k = ch k))
   \<and> ((\<exists>e. get_available med = Inl e) \<or> (\<exists>e. get_available fire = Inl e) \<or>
       (\<exists>e. get_available police = Inl e) \<longrightarrow>
      update_availability_cache_aioHttp ch med fire police = ch)
   \<and> (get_available med = Inr m \<and> get_available fire = Inr f \<and> get_available police = Inr p \<longrightarrow>
      update_availability_cache_aioHttp ch med fire police ''Medical'' = Some m \<and>
      update_availability_cache_aioHttp ch med fire police ''Fire'' = Some f \<and>
      update_availability_cache_aioHttp ch med fire police ''Police'' = Some p \<and>
      (\<forall>k. k \<notin> {''Medical'', ''Fire'', ''Police''} \<longrightarrow>
           update_availability_cache_aioHttp ch med fire police k = ch k))"
proof -
  have fail5: "(\<exists>e. get_available med = Inl e) \<or> (\<exists>e. get_available fire = Inl e) \<or>
    (\<exists>e. get_available police = Inl e) \<or> (\<exists>e. get_available rescue = Inl e) \<or>
    (\<exists>e. get_available utility = Inl e) \<longrightarrow>
      update_availability_cache ch med fire police rescue utility = ch"
    unfolding update_availability_cache_def
    by (cases "get_available med"; cases "get_available fire"; cases "get_available police";
        cases "get_available rescue"; cases "get_available utility") simp_all
  have fail3: "(\<exists>e. get_available med = Inl e) \<or> (\<exists>e. get_available fire = Inl e) \<or>
       (\<exists>e. get_available police = Inl e) \<longrightarrow>
      update_availability_cache_aioHttp ch med fire police = ch"
    unfolding update_availability_cache_aioHttp_def
    by (cases "get_available med"; cases "get_available fire"; cases "get_available police")
       simp_all
  have ok5: "get_available med = Inr m \<and> get_available fire = Inr f \<and> get_available police = Inr p \<and>
       get_available rescue = Inr r \<and> get_available utility = Inr u \<longrightarrow>
      update_availability_cache ch med fire police rescue utility ''Medical'' = Some m \<and>
      update_availability_cache ch med fire police rescue utility ''Fire'' = Some f \<and>
      update_availability_cache ch med fire police rescue utility ''Police'' = Some p \<and>
      update_availability_cache ch med fire police rescue utility ''Rescue'' = Some r \<and>
      update_availability_cache ch med fire police rescue utility ''Utility'' = Some u \<and>
      (\<forall>k. k \<notin> {''Medical'', ''Fire'', ''Police'', ''Rescue'', ''Utility''} \<longrightarrow>
           update_availability_cache ch med fire police rescue utility k = ch k)"
  proof
    assume a: "get_available med = Inr m \<and> get_available fire = Inr f \<and>
       get_available police = Inr p \<and> get_available rescue = Inr r \<and> get_available utility = Inr u"
    then have e: "update_availability_cache ch med fire police rescue utility
        = ch(''Medical'' \<mapsto> m, ''Fire'' \<mapsto> f, ''Police'' \<mapsto> p,
             ''Rescue'' \<mapsto> r, ''Utility'' \<mapsto> u)"
      by (simp add: update_availability_cache_def)
    show "update_availability_cache ch med fire police rescue utility ''Medical'' = Some m \<and>
      update_availability_cache ch med fire police rescue utility ''Fire'' = Some f \<and>
      update_availability_cache ch med fire police rescue utility ''Police'' = Some p \<and>
      update_availability_cache ch med fire police rescue utility ''Rescue'' = Some r \<and>
      update_availability_cache ch med fire police rescue utility ''Utility'' = Some u \<and>
      (\<forall>k. k \<notin> {''Medical'', ''Fire'', ''Police'', ''Rescue'', ''Utility''} \<longrightarrow>
           update_availability_cache ch med fire police rescue utility k = ch k)"
      unfolding e by simp
  qed
  have ok3: "get_available med = Inr m \<and> get_available fire = Inr f \<and> get_available police = Inr p \<longrightarrow>
      update_availability_cache_aioHttp ch med fire police ''Medical'' = Some m \<and>
      update_availability_cache_aioHttp ch med fire police ''Fire'' = Some f \<and>
      update_availability_cache_aioHttp ch med fire police ''Police'' = Some p \<and>
      (\<forall>k. k \<notin> {''Medical'', ''Fire'', ''Police''} \<longrightarrow>
           update_availability_cache_aioHttp ch med fire police k = ch k)"
  proof
    assume a: "get_available med = Inr m \<and> get_available fire = Inr f \<and> get_available police = Inr p"
    then have e: "update_availability_cache_aioHttp ch med fire police
        = ch(''Medical'' \<mapsto> m, ''Fire'' \<mapsto> f, ''Police'' \<mapsto> p)"
      by (simp add: update_availability_cache_aioHttp_def)
    show "update_availability_cache_aioHttp ch med fire police ''Medical'' = Some m \<and>
      update_availability_cache_aioHttp ch med fire police ''Fire'' = Some f \<and>
      update_availability_cache_aioHttp ch med fire police ''Police'' = Some p \<and>
      (\<forall>k. k \<notin> {''Medical'', ''Fire'', ''Police''} \<longrightarrow>
           update_availability_cache_aioHttp ch med fire police k = ch k)"
      unfolding e by simp
  qed
  from fail5 ok5 fail3 ok3 show ?thesis by (intro conjI)
qed

lemma writes_applied_snoc:
  "upd w (writes_applied upd ws ch) = writes_applied upd (ws @ [w]) ch"
  by (simp add: writes_applied_def)

lemma replaced_snoc:
  "i < length news \<Longrightarrow>
   (replaced (take i news) ch)(fst (news ! i) \<mapsto> snd (news ! i)) = replaced (take (Suc i) news) ch"
  by (simp add: replaced_def take_Suc_conv_app_nth)

lemma from_old_refl: "from_old upd old old"
  unfolding from_old_def by (rule exI[where x="[]"]) (simp add: writes_applied_def)

lemma from_old_write: "from_old upd old c \<Longrightarrow> from_old upd old (upd w c)"
  unfolding from_old_def by (metis writes_applied_snoc)

lemma from_new_write: "from_new upd news old c \<Longrightarrow> from_new upd news old (upd w c)"
  unfolding from_new_def by (metis writes_applied_snoc)

lemma part_new_start: "from_old upd old c \<Longrightarrow> part_new upd news old 0 c"
  unfolding from_old_def part_new_def by (simp add: replaced_def)

lemma part_new_assign:
  "part_new upd news old i c \<Longrightarrow> i < length news \<Longrightarrow>
   part_new upd news old (Suc i) (c(fst (news ! i) \<mapsto> snd (news ! i)))"
  unfolding part_new_def by (metis replaced_snoc)

lemma part_new_finish: "part_new upd news old (length news) c \<Longrightarrow> from_new upd news old c"
  unfolding part_new_def from_new_def
  by (metis append_Nil foldl_Nil take_all_iff order_refl writes_applied_def)

lemma lock_invariant_step:
  assumes "lock_invariant upd news old s" and "step upd news a s = Some s'"
  shows "lock_invariant upd news old s'"
proof (cases a)
  case (Acquire t)
  with assms show ?thesis
    by (cases t)
       (auto simp: lock_invariant_def part_new_start split: if_splits refresh_pc.splits)
next
  case Assign
  with assms show ?thesis
    by (auto simp: lock_invariant_def part_new_assign split: if_splits refresh_pc.splits)
next
  case (Release t)
  with assms show ?thesis
    by (cases t)
       (auto simp: lock_invariant_def part_new_finish split: if_splits refresh_pc.splits)
next
  case (Snapshot k)
  with assms show ?thesis
    by (auto simp: lock_invariant_def split: if_splits refresh_pc.splits)
next
  case (Write k w)
  with assms show ?thesis
    by (auto simp: lock_invariant_def from_old_write from_new_write split: if_splits refresh_pc.splits)
qed

lemma lock_invariant_run:
  "lock_invariant upd news old s \<Longrightarrow> run upd news acts s = Some s' \<Longrightarrow> lock_invariant upd news old s'"
proof (induction acts arbitrary: s)
  case Nil
  then show ?case by simp
next
  case (Cons a acts)
  then show ?case by (auto split: option.splits dest: lock_invariant_step)
qed

lemma lock_invariant_initial:
  "sys_pc s0 = Idle \<Longrightarrow> sys_lock s0 \<noteq> Some Refresher \<Longrightarrow> sys_seen s0 = [] \<Longrightarrow>
   lock_invariant upd news (sys_cache s0) s0"
  unfolding lock_invariant_def by (simp add: from_old_refl)

lemma replaced_assignments:
  "replaced (assignments med fire police rescue utility) ch
     = ch(''Medical'' \<mapsto> med, ''Fire'' \<mapsto> fire, ''Police'' \<mapsto> police,
          ''Rescue'' \<mapsto> rescue, ''Utility'' \<mapsto> utility)"
  by (simp add: replaced_def assignments_def)

lemma replaced_assignments_aioHttp:
  "replaced (assignments_aioHttp med fire police) ch
     = ch(''Medical'' \<mapsto> med, ''Fire'' \<mapsto> fire, ''Police'' \<mapsto> police)"
  by (simp add: replaced_def assignments_aioHttp_def)

lemma locked_block_run:
  "run upd (assignments med fire police rescue utility)
     [Acquire Refresher, Assign, Assign, Assign, Assign, Assign, Release Refresher]
     \<lparr>sys_cache = ch, sys_lock = None, sys_pc = Idle, sys_seen = []\<rparr>
   = Some \<lparr>sys_cache = ch(''Medical'' \<mapsto> med, ''Fire'' \<mapsto> fire, ''Police'' \<mapsto> police,
                           ''Rescue'' \<mapsto> rescue, ''Utility'' \<mapsto> utility),
           sys_lock = None, sys_pc = Done, sys_seen = []\<rparr>"
  by (simp add: assignments_def)

lemma locked_block_run_aioHttp:
  "run upd (assignments_aioHttp med fire police)
     [Acquire Refresher, Assign, Assign, Assign, Release Refresher]
     \<lparr>sys_cache = ch, sys_lock = None, sys_pc = Idle, sys_seen = []\<rparr>
   = Some \<lparr>sys_cache = ch(''Medical'' \<mapsto> med, ''Fire'' \<mapsto> fire, ''Police'' \<mapsto> police),
           sys_lock = None, sys_pc = Done, sys_seen = []\<rparr>"
  by (simp add: assignments_aioHttp_def)

lemma refresh_midway_blocks:
  "run upd (assignments med fire police rescue utility) [Acquire Refresher, Assign, Assign]
     \<lparr>sys_cache = ch, sys_lock = None, sys_pc = Idle, sys_seen = []\<rparr>
   = Some \<lparr>sys_cache = ch(''Medical'' \<mapsto> med, ''Fire'' \<mapsto> fire),
           sys_lock = Some Refresher, sys_pc = Writing 2, sys_seen = []\<rparr>
   \<and> step upd (assignments med fire police rescue utility) (Acquire (Processor k))
       \<lparr>sys_cache = ch(''Medical'' \<mapsto> med, ''Fire'' \<mapsto> fire),
        sys_lock = Some Refresher, sys_pc = Writing 2, sys_seen = []\<rparr> = None
   \<and> step upd (assignments med fire police rescue utility) (Snapshot k)
       \<lparr>sys_cache = ch(''Medical'' \<mapsto> med, ''Fire'' \<mapsto> fire),
        sys_lock = Some Refresher, sys_pc = Writing 2, sys_seen = []\<rparr> = None
   \<and> step upd (assignments med fire police rescue utility) (Write k w)
       \<lparr>sys_cache = ch(''Medical'' \<mapsto> med, ''Fire'' \<mapsto> fire),
        sys_lock = Some Refresher, sys_pc = Writing 2, sys_seen = []\<rparr> = None"
  by (simp add: assignments_def)

lemma locked_views:
  assumes "sys_pc s0 = Idle" "sys_lock s0 \<noteq> Some Refresher" "sys_seen s0 = []"
    and "run upd news acts s0 = Some s"
  shows "(\<forall>c \<in> set (sys_seen s).
            (\<exists>ws. c = writes_applied upd ws (sys_cache s0)) \<or>
            (\<exists>ws ws'. c = writes_applied upd ws'
                             (replaced news (writes_applied upd ws (sys_cache s0))))) \<and>
         (\<forall>k. sys_lock s = Some (Processor k) \<longrightarrow>
            (sys_pc s = Idle \<or> sys_pc s = Done) \<and>
            ((\<exists>ws. sys_cache s = writes_applied upd ws (sys_cache s0)) \<or>
             (\<exists>ws ws'. sys_cache s = writes_applied upd ws'
                             (replaced news (writes_applied upd ws (sys_cache s0)))))) \<and>
         (sys_pc s = Done \<longrightarrow>
            (\<exists>ws ws'. sys_cache s = writes_applied upd ws'
                             (replaced news (writes_applied upd ws (sys_cache s0)))))"
proof -
  have "lock_invariant upd news (sys_cache s0) s0" using assms(1-3) by (rule lock_invariant_initial)
  then have i: "lock_invariant upd news (sys_cache s0) s" using assms(4) by (rule lock_invariant_run)
  have seen: "\<forall>c \<in> set (sys_seen s).
      from_old upd (sys_cache s0) c \<or> from_new upd news (sys_cache s0) c"
    using i by (simp add: lock_invariant_def)
  have held: "\<forall>k. sys_lock s = Some (Processor k) \<longrightarrow>
            (sys_pc s = Idle \<or> sys_pc s = Done) \<and>
            (from_old upd (sys_cache s0) (sys_cache s) \<or>
             from_new upd news (sys_cache s0) (sys_cache s))"
    using i by (auto simp: lock_invariant_def split: refresh_pc.splits)
  have fin: "sys_pc s = Done \<longrightarrow> from_new upd news (sys_cache s0) (sys_cache s)"
    using i by (auto simp: lock_invariant_def)
  from seen held fin show ?thesis
    unfolding from_old_def from_new_def by (intro conjI)
qed

lemma mixed_schedule_run:
  "run take_write (assignments [(''A'', 9)] [] [] [] []) mixed_schedule
     \<lparr>sys_cache = [''Medical'' \<mapsto> [(''A'', 5)]], sys_lock = None, sys_pc = Idle, sys_seen = []\<rparr>
   = Some \<lparr>sys_cache = [''Medical'' \<mapsto> [(''A'', 9)], ''Fire'' \<mapsto> [], ''Police'' \<mapsto> [],
                         ''Rescue'' \<mapsto> [], ''Utility'' \<mapsto> []],
           sys_lock = Some (Processor 1), sys_pc = Done,
           sys_seen = [[''Medical'' \<mapsto> [(''A'', 5)]],
                       [''Medical'' \<mapsto> [(''A'', 9)], ''Fire'' \<mapsto> [], ''Police'' \<mapsto> [],
                         ''Rescue'' \<mapsto> [], ''Utility'' \<mapsto> []]]\<rparr>"
  by (simp add: mixed_schedule_def assignments_def take_write_def try_take_def Let_def)

text \<open>
  Claim C10. If the fetch of any one service type raises, the cycle leaves the mapping of
  every service type as it was; if all succeed, every per-service mapping is the newly
  fetched one and no other key is touched (five services in \<^verbatim>\<open>aioHttp3.py\<close>, three in
  \<^verbatim>\<open>aioHttp.py\<close>). The replacement happens inside one locked block, assignment by
  assignment: in every schedule of the refresher and any number of call processors, from
  any state in which the refresher has not yet entered its block, whenever a processor
  holds the lock the refresher has made none or all of its assignments, and every cache a
  processor reads or holds under the lock descends, by processor writes alone, either
  from the cache before the cycle or from a cache in which all the mappings were
  replaced; never from one with only some of them replaced. Run with no other task in
  between, the locked block ends in the cache the cycle function gives.
\<close>

theorem refresh_all_or_nothing:
  "((\<exists>e. get_available med = Inl e) \<or> (\<exists>e. get_available fire = Inl e) \<or>
    (\<exists>e. get_available police = Inl e) \<or> (\<exists>e. get_available rescue = Inl e) \<or>
    (\<exists>e. get_available utility = Inl e) \<longrightarrow>
      update_availability_cache ch med fire police rescue utility = ch)
   \<and> (get_available med = Inr m \<and> get_available fire = Inr f \<and> get_available police = Inr p \<and>
       get_available rescue = Inr r \<and> get_available utility = Inr u \<longrightarrow>
      update_availability_cache ch med fire police rescue utility ''Medical'' = Some m \<and>
      update_availability_cache ch med fire police rescue utility ''Fire'' = Some f \<and>
      update_availability_cache ch med fire police rescue utility ''Police'' = Some p \<and>
      update_availability_cache ch med fire police rescue utility ''Rescue'' = Some r \<and>
      update_availability_cache ch med fire police rescue utility ''Utility'' = Some u \<and>
      (\<forall>k. k \<notin> {''Medical'', ''Fire'', ''Police'', ''Rescue'', ''Utility''} \<longrightarrow>
           update_availability_cache ch med fire police rescue utility k = ch k))
   \<and> ((\<exists>e. get_available med = Inl e) \<or> (\<exists>e. get_available fire = Inl e) \<or>
       (\<exists>e. get_available police = Inl e) \<longrightarrow>
      update_availability_cache_aioHttp ch med fire police = ch)
   \<and> (get_available med = Inr m \<and> get_available fire = Inr f \<and> get_available police = Inr p \<longrightarrow>
      update_availability_cache_aioHttp ch med fire police ''Medical'' = Some m \<and>
      update_availability_cache_aioHttp ch med fire police ''Fire'' = Some f \<and>
      update_availability_cache_aioHttp ch med fire police ''Police'' = Some p \<and>
      (\<forall>k. k \<notin> {''Medical'', ''Fire'', ''Police''} \<longrightarrow>
           update_availability_cache_aioHttp ch med fire police k = ch k))
   \<and> (sys_pc s0 = Idle \<and> sys_lock s0 \<noteq> Some Refresher \<and> sys_seen s0 = [] \<and>
       run upd news acts s0 = Some s \<longrightarrow>
         (\<forall>c \<in> set (sys_seen s).
            (\<exists>ws. c = writes_applied upd ws (sys_cache s0)) \<or>
            (\<exists>ws ws'. c = writes_applied upd ws'
                             (replaced news (writes_applied upd ws (sys_cache s0))))) \<and>
         (\<forall>k. sys_lock s = Some (Processor k) \<longrightarrow>
            (sys_pc s = Idle \<or> sys_pc s = Done) \<and>
            ((\<exists>ws. sys_cache s = writes_applied upd ws (sys_cache s0)) \<or>
             (\<exists>ws ws'. sys_cache s = writes_applied upd ws'
                             (replaced news (writes_applied upd ws (sys_cache s0)))))) \<and>
         (sys_pc s = Done \<longrightarrow>
            (\<exists>ws ws'. sys_cache s = writes_applied upd ws'
                             (replaced news (writes_applied upd ws (sys_cache s0))))))
   \<and> replaced (assignments m f p r u) ch
       = ch(''Medical'' \<mapsto> m, ''Fire'' \<mapsto> f, ''Police'' \<mapsto> p, ''Rescue'' \<mapsto> r, ''Utility'' \<mapsto> u)
   \<and> replaced (assignments_aioHttp m f p) ch
       = ch(''Medical'' \<mapsto> m, ''Fire'' \<mapsto> f, ''Police'' \<mapsto> p)
   \<and> (get_available med = Inr m \<and> get_available fire = Inr f \<and> get_available police = Inr p \<and>
       get_available rescue = Inr r \<and> get_available utility = Inr u \<longrightarrow>
      run upd (assignments m f p r u)
        [Acquire Refresher, Assign, Assign, Assign, Assign, Assign, Release Refresher]
        \<lparr>sys_cache = ch, sys_lock = None, sys_pc = Idle, sys_seen = []\<rparr>
      = Some \<lparr>sys_cache = update_availability_cache ch med fire police rescue utility,
              sys_lock = None, sys_pc = Done, sys_seen = []\<rparr>)
   \<and> (get_available med = Inr m \<and> get_available fire = Inr f \<and> get_available police = Inr p \<longrightarrow>
      run upd (assignments_aioHttp m f p)
        [Acquire Refresher, Assign, Assign, Assign, Release Refresher]
        \<lparr>sys_cache = ch, sys_lock = None, sys_pc = Idle, sys_seen = []\<rparr>
      = Some \<lparr>sys_cache = update_availability_cache_aioHttp ch med fire police,
              sys_lock = None, sys_pc = Done, sys_seen = []\<rparr>)"
proof -
  have views: "sys_pc s0 = Idle \<and> sys_lock s0 \<noteq> Some Refresher \<and> sys_seen s0 = [] \<and>
       run upd news acts s0 = Some s \<longrightarrow>
         (\<forall>c \<in> set (sys_seen s).
            (\<exists>ws. c = writes_applied upd ws (sys_cache s0)) \<or>
            (\<exists>ws ws'. c = writes_applied upd ws'
                             (replaced news (writes_applied upd ws (sys_cache s0))))) \<and>
         (\<forall>k. sys_lock s = Some (Processor k) \<longrightarrow>
            (sys_pc s = Idle \<or> sys_pc s = Done) \<and>
            ((\<exists>ws. sys_cache s = writes_applied upd ws (sys_cache s0)) \<or>
             (\<exists>ws ws'. sys_cache s = writes_applied upd ws'
                             (replaced news (writes_applied upd ws (sys_cache s0)))))) \<and>
         (sys_pc s = Done \<longrightarrow>
            (\<exists>ws ws'. sys_cache s = writes_applied upd ws'
                             (replaced news (writes_applied upd ws (sys_cache s0)))))"
    using locked_views [of s0 upd news acts s] by blast
  have run5: "get_available med = Inr m \<and> get_available fire = Inr f \<and>
       get_available police = Inr p \<and> get_available rescue = Inr r \<and>
       get_available utility = Inr u \<longrightarrow>
      run upd (assignments m f p r u)
        [Acquire Refresher, Assign, Assign, Assign, Assign, Assign, Release Refresher]
        \<lparr>sys_cache = ch, sys_lock = None, sys_pc = Idle, sys_seen = []\<rparr>
      = Some \<lparr>sys_cache = update_availability_cache ch med fire police rescue utility,
              sys_lock = None, sys_pc = Done, sys_seen = []\<rparr>"
  proof
    assume "get_available med = Inr m \<and> get_available fire = Inr f \<and>
       get_available police = Inr p \<and> get_available rescue = Inr r \<and>
       get_available utility = Inr u"
    then have e: "update_availability_cache ch med fire police rescue utility
        = ch(''Medical'' \<mapsto> m, ''Fire'' \<mapsto> f, ''Police'' \<mapsto> p,
             ''Rescue'' \<mapsto> r, ''Utility'' \<mapsto> u)"
      by (simp add: update_availability_cache_def)
    show "run upd (assignments m f p r u)
        [Acquire Refresher, Assign, Assign, Assign, Assign, Assign, Release Refresher]
        \<lparr>sys_cache = ch, sys_lock = None, sys_pc = Idle, sys_seen = []\<rparr>
      = Some \<lparr>sys_cache = update_availability_cache ch med fire police rescue utility,
              sys_lock = None, sys_pc = Done, sys_seen = []\<rparr>"
      unfolding e by (rule locked_block_run)
  qed
  have run3: "get_available med = Inr m \<and> get_available fire = Inr f \<and>
       get_available police = Inr p \<longrightarrow>
      run upd (assignments_aioHttp m f p)
        [Acquire Refresher, Assign, Assign, Assign, Release Refresher]
        \<lparr>sys_cache = ch, sys_lock = None, sys_pc = Idle, sys_seen = []\<rparr>
      = Some \<lparr>sys_cache = update_availability_cache_aioHttp ch med fire police,
              sys_lock = None, sys_pc = Done, sys_seen = []\<rparr>"
  proof
    assume "get_available med = Inr m \<and> get_available fire = Inr f \<and>
       get_available police = Inr p"
    then have e: "update_availability_cache_aioHttp ch med fire police
        = ch(''Medical'' \<mapsto> m, ''Fire'' \<mapsto> f, ''Police'' \<mapsto> p)"
      by (simp add: update_availability_cache_aioHttp_def)
    show "run upd (assignments_aioHttp m f p)
        [Acquire Refresher, Assign, Assign, Assign, Release Refresher]
        \<lparr>sys_cache = ch, sys_lock = None, sys_pc = Idle, sys_seen = []\<rparr>
      = Some \<lparr>sys_cache = update_availability_cache_aioHttp ch med fire police,
              sys_lock = None, sys_pc = Done, sys_seen = []\<rparr>"
      unfolding e by (rule locked_block_run_aioHttp)
  qed
  note old = refresh_cycle_result [of med fire police rescue utility ch m f p r u]
  note o1 = old [THEN conjunct1]
    and o2 = old [THEN conjunct2, THEN conjunct1]
    and o3 = old [THEN conjunct2, THEN conjunct2, THEN conjunct1]
    and o4 = old [THEN conjunct2, THEN conjunct2, THEN conjunct2]
  show ?thesis
    by (intro conjI)
       (rule o1 o2 o3 o4 views replaced_assignments replaced_assignments_aioHttp run5 run3)+
qed

theorem refresh_all_or_nothing_witness:
  "update_availability_cache scenario_cache scenario_medical scenario_other ApiNone scenario_other
     scenario_other = scenario_cache
   \<and> update_availability_cache scenario_cache scenario_other scenario_other scenario_other
       scenario_other scenario_other ''Medical'' = Some [(''A'', 1)]
   \<and> update_availability_cache_aioHttp scenario_cache scenario_other scenario_other (ApiText ''oops'')
       = scenario_cache
   \<and> update_availability_cache_aioHttp scenario_cache scenario_other scenario_other scenario_other
       ''Police'' = Some [(''A'', 1)]
   \<and> (\<exists>ws ws'.
         [''Medical'' \<mapsto> [(''A'', 9)], ''Fire'' \<mapsto> [], ''Police'' \<mapsto> [], ''Rescue'' \<mapsto> [],
          ''Utility'' \<mapsto> []]
         = writes_applied take_write ws'
             (replaced (assignments [(''A'', 9)] [] [] [] [])
                (writes_applied take_write ws [''Medical'' \<mapsto> [(''A'', 5)]])))"
proof -
  have n: "get_available ApiNone = Inl RuntimeError" by (simp add: get_available_def)
  have t: "get_available (ApiText ''oops'') = Inl AttributeError" by (simp add: get_available_def)
  have o: "get_available scenario_other = Inr [(''A'', 1)]"
    by (simp add: get_available_def scenario_other_def item_key_def item_count_def str_or_def)
  have ha: "(\<exists>e. get_available scenario_medical = Inl e) \<or>
            (\<exists>e. get_available scenario_other = Inl e) \<or>
            (\<exists>e. get_available ApiNone = Inl e) \<or>
            (\<exists>e. get_available scenario_other = Inl e) \<or>
            (\<exists>e. get_available scenario_other = Inl e)"
    by (simp add: n)
  have hb: "get_available scenario_other = Inr [(''A'', 1)] \<and>
            get_available scenario_other = Inr [(''A'', 1)] \<and>
            get_available scenario_other = Inr [(''A'', 1)] \<and>
            get_available scenario_other = Inr [(''A'', 1)] \<and>
            get_available scenario_other = Inr [(''A'', 1)]"
    by (simp add: o)
  have hc: "(\<exists>e. get_available scenario_other = Inl e) \<or>
            (\<exists>e. get_available scenario_other = Inl e) \<or>
            (\<exists>e. get_available (ApiText ''oops'') = Inl e)"
    by (simp add: t)
  have hd: "get_available scenario_other = Inr [(''A'', 1)] \<and>
            get_available scenario_other = Inr [(''A'', 1)] \<and>
            get_available scenario_other = Inr [(''A'', 1)]"
    by (simp add: o)
  note 1 = refresh_all_or_nothing
             [of scenario_medical scenario_other ApiNone scenario_other scenario_other
                 scenario_cache,
              THEN conjunct1, THEN mp, OF ha]
  note 2 = refresh_all_or_nothing
             [of scenario_other scenario_other scenario_other scenario_other scenario_other
                 scenario_cache "[(''A'', 1)]" "[(''A'', 1)]" "[(''A'', 1)]" "[(''A'', 1)]"
                 "[(''A'', 1)]",
              THEN conjunct2, THEN conjunct1, THEN mp, OF hb, THEN conjunct1]
  note 3 = refresh_all_or_nothing
             [of scenario_other scenario_other "ApiText ''oops''" scenario_other scenario_other
                 scenario_cache,
              THEN conjunct2, THEN conjunct2, THEN conjunct1, THEN mp, OF hc]
  note 4 = refresh_all_or_nothing
             [of scenario_other scenario_other scenario_other scenario_other scenario_other
                 scenario_cache "[(''A'', 1)]" "[(''A'', 1)]" "[(''A'', 1)]" "[(''A'', 1)]"
                 "[(''A'', 1)]",
              THEN conjunct2, THEN conjunct2, THEN conjunct2, THEN conjunct1, THEN mp, OF hd,
              THEN conjunct2, THEN conjunct2, THEN conjunct1]
  have he: "sys_pc \<lparr>sys_cache = [''Medical'' \<mapsto> [(''A'', 5)]], sys_lock = None, sys_pc = Idle,
                     sys_seen = []\<rparr> = Idle \<and>
            sys_lock \<lparr>sys_cache = [''Medical'' \<mapsto> [(''A'', 5)]], sys_lock = None, sys_pc = Idle,
                       sys_seen = []\<rparr> \<noteq> Some Refresher \<and>
            sys_seen \<lparr>sys_cache = [''Medical'' \<mapsto> [(''A'', 5)]], sys_lock = None, sys_pc = Idle,
                       sys_seen = []\<rparr> = [] \<and>
            run take_write (assignments [(''A'', 9)] [] [] [] []) mixed_schedule
              \<lparr>sys_cache = [''Medical'' \<mapsto> [(''A'', 5)]], sys_lock = None, sys_pc = Idle,
               sys_seen = []\<rparr>
            = Some \<lparr>sys_cache = [''Medical'' \<mapsto> [(''A'', 9)], ''Fire'' \<mapsto> [], ''Police'' \<mapsto> [],
                         ''Rescue'' \<mapsto> [], ''Utility'' \<mapsto> []],
                    sys_lock = Some (Processor 1), sys_pc = Done,
                    sys_seen = [[''Medical'' \<mapsto> [(''A'', 5)]],
                       [''Medical'' \<mapsto> [(''A'', 9)], ''Fire'' \<mapsto> [], ''Police'' \<mapsto> [],
                         ''Rescue'' \<mapsto> [], ''Utility'' \<mapsto> []]]\<rparr>"
    by (simp add: mixed_schedule_run)
  note 5 = refresh_all_or_nothing
             [where ?s0.0 = "\<lparr>sys_cache = [''Medical'' \<mapsto> [(''A'', 5)]], sys_lock = None,
                             sys_pc = Idle, sys_seen = []\<rparr>"
                and upd = take_write and news = "assignments [(''A'', 9)] [] [] [] []"
                and acts = mixed_schedule
                and s = "\<lparr>sys_cache = [''Medical'' \<mapsto> [(''A'', 9)], ''Fire'' \<mapsto> [],
                                      ''Police'' \<mapsto> [], ''Rescue'' \<mapsto> [], ''Utility'' \<mapsto> []],
                    sys_lock = Some (Processor 1), sys_pc = Done,
                    sys_seen = [[''Medical'' \<mapsto> [(''A'', 5)]],
                       [''Medical'' \<mapsto> [(''A'', 9)], ''Fire'' \<mapsto> [], ''Police'' \<mapsto> [],
                         ''Rescue'' \<mapsto> [], ''Utility'' \<mapsto> []]]\<rparr>",
              THEN conjunct2, THEN conjunct2, THEN conjunct2, THEN conjunct2, THEN conjunct1,
              THEN mp, OF he, THEN conjunct2, THEN conjunct2]
  from 5 have 6: "\<exists>ws ws'.
         [''Medical'' \<mapsto> [(''A'', 9)], ''Fire'' \<mapsto> [], ''Police'' \<mapsto> [], ''Rescue'' \<mapsto> [],
          ''Utility'' \<mapsto> []]
         = writes_applied take_write ws'
             (replaced (assignments [(''A'', 9)] [] [] [] [])
                (writes_applied take_write ws [''Medical'' \<mapsto> [(''A'', 5)]]))"
    by simp
  from 1 2 3 4 6 show ?thesis by (intro conjI)
qed

subsection \<open>Overdispatch and the order of decrement and dispatch\<close>

lemma take_sequence_no_overdispatch:
  "ch st = Some av \<Longrightarrow> map_of av c = Some C \<Longrightarrow> 0 \<le> C \<Longrightarrow> \<forall>r \<in> set rs. 0 < r \<Longrightarrow>
   \<exists>taken ch' av'. take_sequence ch st c rs = (taken, ch') \<and>
      length taken = length rs \<and> (\<forall>d \<in> set taken. 0 \<le> d) \<and> sum_list taken \<le> C \<and>
      ch' st = Some av' \<and> map_of av' c = Some (C - sum_list taken) \<and> 0 \<le> C - sum_list taken"
proof (induction rs arbitrary: ch av C)
  case Nil
  then show ?case by simp
next
  case (Cons r rs)
  let ?m = "min C r"
  let ?av1 = "AList.update c (C - ?m) av"
  let ?ch1 = "ch(st \<mapsto> ?av1)"
  have r: "0 < r" using Cons.prems(4) by simp
  have tt: "try_take ch st c r =
          (?m, ?ch1, if C > 0 then [CacheWrite st c (C - ?m)] else [])"
    using Cons.prems(1,2,3) r by (rule try_take_known)
  have a1: "?ch1 st = Some ?av1" by simp
  have a2: "map_of ?av1 c = Some (C - ?m)" by (simp add: AList.update_conv')
  have a3: "0 \<le> C - ?m" by simp
  have a4: "\<forall>r \<in> set rs. 0 < r" using Cons.prems(4) by simp
  from Cons.IH [of ?ch1 ?av1 "C - ?m", OF a1 a2 a3 a4] obtain taken ch' av' where
    ih: "take_sequence ?ch1 st c rs = (taken, ch')" "length taken = length rs"
        "\<forall>d \<in> set taken. 0 \<le> d" "sum_list taken \<le> C - ?m"
        "ch' st = Some av'" "map_of av' c = Some (C - ?m - sum_list taken)"
        "0 \<le> C - ?m - sum_list taken"
    by blast
  have "take_sequence ch st c (r # rs) = (?m # taken, ch')"
    using tt ih(1) by simp
  moreover have "0 \<le> ?m" using Cons.prems(3) r by simp
  ultimately show ?case using ih by (auto simp: algebra_simps)
qed

lemma scenario_rank_single:
  "rank_candidates exact_arith scenario_locations (1, 1) [(''A'', 5)] = [(''A'', 1, 5)]"
  by (simp add: rank_candidates_def scenario_locations_def euclidean_distance_def exact_arith_def)

text \<open>
  Claim C1 at a failing input. Two calls of one \<^verbatim>\<open>asyncio.gather\<close> batch in
  \<^verbatim>\<open>aioHttp.py\<close> each ask for 4 Medical units at T while the cache holds 5 at A. Both
  build their candidates before either decrements (the first is suspended in
  \<^verbatim>\<open>await dispatch\<close>), so both hold the count 5. The first walk leaves 1; the second
  takes \<^verbatim>\<open>min(5, 4)\<close> again and leaves -3: 8 units dispatched out of 5, both calls at
  remainder 0.
\<close>

theorem aioHttp_overdispatch:
  "allocate_aioHttp (\<lambda>e p. True) scenario_locations ''Medical'' ''T''
      (rank_candidates exact_arith scenario_locations (1, 1) [(''A'', 5)]) 4 [''Medical'' \<mapsto> [(''A'', 5)]]
    = Inr (0, [''Medical'' \<mapsto> [(''A'', 1)]],
           [Post ''/medical/dispatch'' (scenario_order ''CA'' ''A'' 4) True,
            CacheWrite ''Medical'' ''A'' 1])
   \<and> allocate_aioHttp (\<lambda>e p. True) scenario_locations ''Medical'' ''T''
      (rank_candidates exact_arith scenario_locations (1, 1) [(''A'', 5)]) 4 [''Medical'' \<mapsto> [(''A'', 1)]]
    = Inr (0, [''Medical'' \<mapsto> [(''A'', - 3)]],
           [Post ''/medical/dispatch'' (scenario_order ''CA'' ''A'' 4) True,
            CacheWrite ''Medical'' ''A'' (- 3)])"
  unfolding scenario_rank_single
  by (simp add: endpoint_aioHttp_def decrement_aioHttp_def dispatch_def scenario_locations_def
        scenario_order_def Let_def)

lemma aioHttp3_same_interleaving:
  "allocate_shared (\<lambda>e p. True) scenario_locations ''Medical'' ''T'' [(''A'', 1)] 4
      [''Medical'' \<mapsto> [(''A'', 5)]]
    = (0, [''Medical'' \<mapsto> [(''A'', 1)]],
       [CacheWrite ''Medical'' ''A'' 1,
        Post ''/medical/dispatch'' (scenario_order ''CA'' ''A'' 4) True])
   \<and> allocate_shared (\<lambda>e p. True) scenario_locations ''Medical'' ''T'' [(''A'', 1)] 4
      [''Medical'' \<mapsto> [(''A'', 1)]]
    = (3, [''Medical'' \<mapsto> [(''A'', 0)]],
       [CacheWrite ''Medical'' ''A'' 0,
        Post ''/medical/dispatch'' (scenario_order ''CA'' ''A'' 1) True])"
  by (simp add: try_take_def endpoint_of_def dispatch_def scenario_locations_def
        scenario_order_def Let_def)

lemma allocate_shared_gateway_independent:
  "fst (allocate_shared gw1 ld st t cands r ch) = fst (allocate_shared gw2 ld st t cands r ch) \<and>
   fst (snd (allocate_shared gw1 ld st t cands r ch))
     = fst (snd (allocate_shared gw2 ld st t cands r ch))"
proof (induction cands arbitrary: r ch)
  case Nil
  then show ?case by simp
next
  case (Cons cand cands)
  obtain c d where cand: "cand = (c, d)" by (cases cand)
  obtain dc ch1 w where tt: "try_take ch st c r = (dc, ch1, w)" by (cases "try_take ch st c r")
  show ?case
    using Cons.IH [of "r - dc" ch1] Cons.IH [of r ch1]
    by (auto simp: cand tt split: prod.splits option.splits)
qed

lemma allocate_aioHttp_gateway_independent:
  "map_sum id (\<lambda>res. (fst res, fst (snd res))) (allocate_aioHttp gw1 ld st t cands r ch)
     = map_sum id (\<lambda>res. (fst res, fst (snd res))) (allocate_aioHttp gw2 ld st t cands r ch)"
proof (induction cands arbitrary: r ch)
  case Nil
  then show ?case by simp
next
  case (Cons cand cands)
  obtain c d n where cand: "cand = (c, d, n)" by (cases cand) auto
  show ?case
  proof (cases "decrement_aioHttp ch st c (min n r)")
    case (Inl e)
    then show ?thesis using Cons.IH [of r ch] by (simp add: cand Let_def split: option.splits)
  next
    case (Inr res)
    obtain ch1 w where res: "res = (ch1, w)" by (cases res)
    show ?thesis
      using Cons.IH [of "r - min n r" ch1] Cons.IH [of r ch]
      by (cases "allocate_aioHttp gw1 ld st t cands (r - min n r) ch1";
          cases "allocate_aioHttp gw2 ld st t cands (r - min n r) ch1")
         (auto simp: cand Inr res Let_def split: option.splits)
  qed
qed

lemma try_take_writes:
  "try_take ch st c r = (dc, ch1, w) \<Longrightarrow> 0 < r \<Longrightarrow>
     (0 < dc \<longrightarrow> (\<exists>v. w = [CacheWrite st c v])) \<and> (\<not> 0 < dc \<longrightarrow> w = [])"
  by (auto simp: try_take_def Let_def split: option.splits if_splits)

lemma wf_dispatch_shape:
  "\<forall>k loc. ld k = Some loc \<longrightarrow> city loc = k \<Longrightarrow>
   dispatch gw ep c t a ld = [] \<or>
   (\<exists>p. dispatch gw ep c t a ld = [Post ep p (gw ep p)] \<and> sourceCity p = c \<and> quantity p = a)"
  by (auto simp: dispatch_def Let_def split: option.splits)

lemma allocate_shared_writes_first:
  assumes wf: "\<forall>k loc. ld k = Some loc \<longrightarrow> city loc = k"
  shows "writes_precede_posts (snd (snd (allocate_shared gw ld st t cands r ch)))"
proof (induction cands arbitrary: r ch)
  case Nil
  then show ?case by simp
next
  case (Cons cand cands)
  obtain c d where cand: "cand = (c, d)" by (cases cand)
  show ?case
  proof (cases "r \<le> 0")
    case True
    then show ?thesis by (simp add: cand)
  next
    case False
    obtain dc ch1 w where tt: "try_take ch st c r = (dc, ch1, w)" by (cases "try_take ch st c r")
    from try_take_writes [OF tt] False
    have w: "(0 < dc \<longrightarrow> (\<exists>v. w = [CacheWrite st c v])) \<and> (\<not> 0 < dc \<longrightarrow> w = [])" by simp
    show ?thesis
    proof (cases "0 < dc")
      case F: False
      then show ?thesis using Cons.IH [of r ch1] w False
        by (simp add: cand tt split: prod.splits)
    next
      case True
      then obtain v where wv: "w = [CacheWrite st c v]" using w by auto
      show ?thesis
      proof (cases "endpoint_of st")
        case None
        obtain r2 ch2 evs where rec: "allocate_shared gw ld st t cands r ch1 = (r2, ch2, evs)"
          by (cases "allocate_shared gw ld st t cands r ch1")
        have "writes_precede_posts evs" using Cons.IH [of r ch1] rec by simp
        then have "writes_precede_posts (CacheWrite st c v # evs)"
          by (cases evs rule: writes_precede_posts.cases) simp_all
        then show ?thesis using False True None rec by (simp add: cand tt wv)
      next
        case (Some ep)
        obtain r2 ch2 evs where rec: "allocate_shared gw ld st t cands (r - dc) ch1 = (r2, ch2, evs)"
          by (cases "allocate_shared gw ld st t cands (r - dc) ch1")
        have ih: "writes_precede_posts evs" using Cons.IH [of "r - dc" ch1] rec by simp
        from wf_dispatch_shape [OF wf, of gw ep c t dc]
        have "writes_precede_posts (CacheWrite st c v # dispatch gw ep c t dc ld @ evs)"
        proof
          assume "dispatch gw ep c t dc ld = []"
          then show ?thesis using ih by (cases evs rule: writes_precede_posts.cases) simp_all
        next
          assume "\<exists>p. dispatch gw ep c t dc ld = [Post ep p (gw ep p)] \<and> sourceCity p = c \<and>
                      quantity p = dc"
          then show ?thesis using ih by auto
        qed
        then show ?thesis using False True Some rec by (simp add: cand tt wv)
      qed
    qed
  qed
qed

text \<open>
  Claim C7 at a failing input. One call for 4 Medical units in \<^verbatim>\<open>aioHttp.py\<close>, with 5
  at A: the order is posted first and the cache is written after it, whether the gateway
  answers or fails; the count left is 1 in both cases.
\<close>

theorem aioHttp_posts_before_decrement:
  "allocate_aioHttp (\<lambda>e p. True) scenario_locations ''Medical'' ''T'' [(''A'', 1, 5)] 4
      [''Medical'' \<mapsto> [(''A'', 5)]]
    = Inr (0, [''Medical'' \<mapsto> [(''A'', 1)]],
           [Post ''/medical/dispatch'' (scenario_order ''CA'' ''A'' 4) True,
            CacheWrite ''Medical'' ''A'' 1])
   \<and> allocate_aioHttp (\<lambda>e p. False) scenario_locations ''Medical'' ''T'' [(''A'', 1, 5)] 4
      [''Medical'' \<mapsto> [(''A'', 5)]]
    = Inr (0, [''Medical'' \<mapsto> [(''A'', 1)]],
           [Post ''/medical/dispatch'' (scenario_order ''CA'' ''A'' 4) False,
            CacheWrite ''Medical'' ''A'' 1])
   \<and> \<not> writes_precede_posts
          [Post ''/medical/dispatch'' (scenario_order ''CA'' ''A'' 4) True,
            CacheWrite ''Medical'' ''A'' 1]"
  by (simp add: endpoint_aioHttp_def decrement_aioHttp_def dispatch_def scenario_locations_def
        scenario_order_def Let_def)

end
